theory Spec2Isabelle
  imports Main "HOL-Library.Char_ord" "HOL-Library.List_Lexorder" "HOL-Library.Multiset"
begin

section \<open>The record store of memory\_server.py\<close>

text \<open>
  The memory database holds the tables \<open>entities\<close> and \<open>observations\<close> created by
  \<open>init_memory_database\<close>. A table is the list of its rows in rowid order. Text columns
  are strings, compared as SQLite compares TEXT under the BINARY collation (lexicographic
  on the characters); a character is a code point below 256. The timestamps that
  \<open>now_iso()\<close> reads from the clock are arguments of the operations.
\<close>

record entity =
  e_id :: nat
  e_name :: string
  e_entity_type :: string
  e_database :: string
  e_salience :: string
  e_created_at :: string
  e_updated_at :: string

record observation =
  o_id :: nat
  o_entity_id :: nat
  o_content :: string
  o_added_at :: string

record memory_db =
  entities :: "entity list"
  observations :: "observation list"
  entities_seq :: nat
  observations_seq :: nat

text \<open>
  Exceptions: the two of the sqlite3 module that the operations meet, the one of
  the json module, and the OverflowError that the sqlite3 module raises when it is
  given an integer to bind that does not fit 64 bits. A statement of an operation is
  numbered by its position among the \<open>execute\<close> and \<open>commit\<close> calls that the
  operation makes on its connection; \<open>flt k = Some ex\<close> says that statement \<open>k\<close>
  raises \<open>ex\<close> for a reason outside the tables and the values bound (a locked file,
  an I/O error). Constraint violations are computed from the tables; where an
  operation binds an integer or a list of values that its caller gives, the errors of
  binding and of the engine's limits are computed from those values.
\<close>

datatype exn =
  OperationalError string
| IntegrityError string
| JSONDecodeError string
| OverflowError string

type_synonym faults = "nat \<Rightarrow> exn option"

definition no_faults :: faults where
  "no_faults = (\<lambda>k. None)"

fun str_exn :: "exn \<Rightarrow> string" where
  "str_exn (OperationalError m) = m"
| "str_exn (IntegrityError m) = m"
| "str_exn (JSONDecodeError m) = m"
| "str_exn (OverflowError m) = m"

text \<open>\<open>INTEGER PRIMARY KEY AUTOINCREMENT\<close>: one more than the largest rowid ever used.\<close>

definition next_rowid :: "nat \<Rightarrow> nat list \<Rightarrow> nat" where
  "next_rowid seq ids = Suc (fold max ids seq)"

text \<open>\<open>SELECT ... FROM entities WHERE name = ? AND database = ?\<close>, \<open>fetchone()\<close>.\<close>

definition select_entity :: "memory_db \<Rightarrow> string \<Rightarrow> string \<Rightarrow> entity option" where
  "select_entity db n d = find (\<lambda>e. e_name e = n \<and> e_database e = d) (entities db)"

text \<open>\<open>INSERT INTO observations (entity_id, content, added_at) VALUES (?, ?, ?)\<close>.\<close>

definition insert_observation :: "memory_db \<Rightarrow> nat \<Rightarrow> string \<Rightarrow> string \<Rightarrow> memory_db" where
  "insert_observation db eid c t =
     (let i = next_rowid (observations_seq db) (map o_id (observations db))
      in db\<lparr>observations := observations db @
               [\<lparr>o_id = i, o_entity_id = eid, o_content = c, o_added_at = t\<rparr>],
             observations_seq := i\<rparr>)"

text \<open>
  \<open>INSERT INTO entities (...) VALUES (?, ?, ?, ?, ?, ?)\<close>; the table's
  \<open>UNIQUE(name, database)\<close> rejects a second row of the same pair. Returns
  \<open>cursor.lastrowid\<close> with the new tables.
\<close>

definition unique_failed :: exn where
  "unique_failed = IntegrityError ''UNIQUE constraint failed: entities.name, entities.database''"

definition insert_entity ::
  "memory_db \<Rightarrow> string \<Rightarrow> string \<Rightarrow> string \<Rightarrow> string \<Rightarrow> string \<Rightarrow> string
   \<Rightarrow> exn + (nat \<times> memory_db)" where
  "insert_entity db n ty d s c u =
     (if \<exists>e \<in> set (entities db). e_name e = n \<and> e_database e = d then Inl unique_failed
      else
        let i = next_rowid (entities_seq db) (map e_id (entities db))
        in Inr (i, db\<lparr>entities := entities db @
                       [\<lparr>e_id = i, e_name = n, e_entity_type = ty, e_database = d,
                         e_salience = s, e_created_at = c, e_updated_at = u\<rparr>],
                     entities_seq := i\<rparr>))"

text \<open>\<open>UPDATE entities SET updated_at = ? WHERE id = ?\<close>.\<close>

definition update_updated_at :: "memory_db \<Rightarrow> string \<Rightarrow> nat \<Rightarrow> memory_db" where
  "update_updated_at db t i =
     db\<lparr>entities := map (\<lambda>e. if e_id e = i then e\<lparr>e_updated_at := t\<rparr> else e) (entities db)\<rparr>"

subsection \<open>store\_memory\<close>

datatype store_result =
  StoreSuccess string nat string string string
| StoreFailure string

text \<open>
  The fields of the success dictionary are, in order, \<open>action\<close>, \<open>entity_id\<close>,
  \<open>entity_name\<close>, \<open>database\<close> and \<open>observation\<close>; the failure carries \<open>error\<close>.
\<close>

text \<open>
  The body of the \<open>try\<close> block. Statement 0 is the lookup, 1 and 2 are the two writes of
  the branch taken, 3 is \<open>conn.commit()\<close>. The value is the returned dictionary with the
  tables as committed, or the exception that left the block.
\<close>

definition store_memory_try ::
  "faults \<Rightarrow> string \<Rightarrow> memory_db \<Rightarrow> string \<Rightarrow> string \<Rightarrow> string \<Rightarrow> string \<Rightarrow> string
   \<Rightarrow> exn + (store_result \<times> memory_db)" where
  "store_memory_try flt now db entity_name observation entity_type database salience =
     (case flt 0 of Some ex \<Rightarrow> Inl ex | None \<Rightarrow>
      (case select_entity db entity_name database of
         Some entity \<Rightarrow>
           (case flt 1 of Some ex \<Rightarrow> Inl ex | None \<Rightarrow>
            let db1 = insert_observation db (e_id entity) observation now in
            (case flt 2 of Some ex \<Rightarrow> Inl ex | None \<Rightarrow>
             let db2 = update_updated_at db1 now (e_id entity) in
             (case flt 3 of Some ex \<Rightarrow> Inl ex | None \<Rightarrow>
              Inr (StoreSuccess ''updated'' (e_id entity) entity_name database observation,
                   db2))))
       | None \<Rightarrow>
           (case flt 1 of Some ex \<Rightarrow> Inl ex | None \<Rightarrow>
            (case insert_entity db entity_name entity_type database salience now now of
               Inl ex \<Rightarrow> Inl ex
             | Inr (new_id, db1) \<Rightarrow>
                (case flt 2 of Some ex \<Rightarrow> Inl ex | None \<Rightarrow>
                 let db2 = insert_observation db1 new_id observation now in
                 (case flt 3 of Some ex \<Rightarrow> Inl ex | None \<Rightarrow>
                  Inr (StoreSuccess ''created'' new_id entity_name database observation,
                       db2)))))))"

text \<open>
  \<open>except Exception as e\<close> turns an exception into the failure dictionary, and
  \<open>finally: conn.close()\<close> closes the connection: writes that were not committed are
  lost with it, so the tables are the ones the call started from. The first component
  is \<open>Inl\<close> when an exception reaches the caller, which this operation never does.
\<close>

definition store_memory ::
  "faults \<Rightarrow> string \<Rightarrow> memory_db \<Rightarrow> string \<Rightarrow> string \<Rightarrow> string \<Rightarrow> string \<Rightarrow> string
   \<Rightarrow> (exn + store_result) \<times> memory_db" where
  "store_memory flt now db entity_name observation entity_type database salience =
     (case store_memory_try flt now db entity_name observation entity_type database salience of
        Inl ex \<Rightarrow> (Inr (StoreFailure (str_exn ex)), db)
      | Inr (r, db') \<Rightarrow> (Inr r, db'))"

subsection \<open>Queries: ORDER BY, LIMIT, joins, LIKE\<close>

text \<open>
  \<open>ORDER BY key DESC\<close> as a stable insertion sort, for the queries on one table. SQL
  leaves the order of rows with equal keys open; SQLite reads the rows of one table by
  rowid and keeps rows with equal keys in that order, and so does the model.
\<close>

fun insort_desc :: "('a \<Rightarrow> 'k::linorder) \<Rightarrow> 'a \<Rightarrow> 'a list \<Rightarrow> 'a list" where
  "insort_desc f x [] = [x]"
| "insort_desc f x (y # ys) = (if f y \<le> f x then x # y # ys else y # insort_desc f x ys)"

definition order_by_desc :: "('a \<Rightarrow> 'k::linorder) \<Rightarrow> 'a list \<Rightarrow> 'a list" where
  "order_by_desc f xs = foldr (insort_desc f) xs []"

text \<open>
  In a query on a join the order in which SQLite reads the rows is its planner's, and
  rows with equal keys come in an order that is not the order of the tables. For these
  queries the model does not choose an order: \<open>sql_orders f rows\<close> lists every order
  that \<open>ORDER BY key DESC\<close> allows, which are the arrangements of the rows in which
  the keys descend, and an operation that runs such a query has one result for each of
  them.
\<close>

fun insert_all :: "'a \<Rightarrow> 'a list \<Rightarrow> 'a list list" where
  "insert_all x [] = [[x]]"
| "insert_all x (y # ys) = (x # y # ys) # map ((#) y) (insert_all x ys)"

fun arrangements :: "'a list \<Rightarrow> 'a list list" where
  "arrangements [] = [[]]"
| "arrangements (x # xs) = concat (map (insert_all x) (arrangements xs))"

definition sql_orders :: "('a \<Rightarrow> 'k::linorder) \<Rightarrow> 'a list \<Rightarrow> 'a list list" where
  "sql_orders f xs = remdups (filter (sorted_wrt (\<lambda>a b. f b \<le> f a)) (arrangements xs))"

text \<open>\<open>LIMIT ?\<close>: SQLite reads a negative limit as no limit.\<close>

definition sql_limit :: "int \<Rightarrow> 'a list \<Rightarrow> 'a list" where
  "sql_limit n xs = (if n < 0 then xs else take (nat n) xs)"

text \<open>
  The rows of \<open>FROM entities e LEFT JOIN observations o ON e.id = o.entity_id\<close>. The
  queries that read them order them, and are modelled with \<open>sql_orders\<close>.
\<close>

definition left_join :: "memory_db \<Rightarrow> (entity \<times> observation option) list" where
  "left_join db =
     concat (map (\<lambda>e. case filter (\<lambda>ob. o_entity_id ob = e_id e) (observations db) of
                         [] \<Rightarrow> [(e, None)]
                       | obs \<Rightarrow> map (\<lambda>ob. (e, Some ob)) obs)
                 (entities db))"

text \<open>The rows of \<open>FROM observations o JOIN entities e ON o.entity_id = e.id\<close>.\<close>

definition inner_join :: "memory_db \<Rightarrow> (entity \<times> observation) list" where
  "inner_join db =
     concat (map (\<lambda>ob. map (\<lambda>e. (e, ob)) (filter (\<lambda>e. e_id e = o_entity_id ob) (entities db)))
                 (observations db))"

text \<open>
  The LIKE operator: \<open>%\<close> matches any run of characters, \<open>_\<close> any one character, and
  letters of the ASCII range match without regard to case. First argument the pattern.
  SQLite compares the two texts as C strings, which end before their first NUL
  character.
\<close>

definition sqlite_lower :: "char \<Rightarrow> char" where
  "sqlite_lower c =
     (if CHR ''A'' \<le> c \<and> c \<le> CHR ''Z'' then char_of (of_char c + (32::nat)) else c)"

fun like_chars :: "string \<Rightarrow> string \<Rightarrow> bool" where
  "like_chars [] [] = True"
| "like_chars [] (c # s) = False"
| "like_chars (p # ps) [] = (p = CHR ''%'' \<and> like_chars ps [])"
| "like_chars (p # ps) (c # s) =
     (if p = CHR ''%'' then like_chars ps (c # s) \<or> like_chars (p # ps) s
      else if p = CHR ''_'' then like_chars ps s
      else sqlite_lower p = sqlite_lower c \<and> like_chars ps s)"

definition c_string :: "string \<Rightarrow> string" where
  "c_string s = takeWhile (\<lambda>c. c \<noteq> CHR 0x00) s"

definition like :: "string \<Rightarrow> string \<Rightarrow> bool" where
  "like p s = like_chars (c_string p) (c_string s)"

text \<open>Python's truth value of an optional list or string: \<open>None\<close> and the empty one are false.\<close>

fun truthy :: "'a list option \<Rightarrow> bool" where
  "truthy None = False"
| "truthy (Some xs) = (xs \<noteq> [])"

text \<open>\<open>x or d\<close> for an optional list or string \<open>x\<close>.\<close>

definition or_else :: "'a list option \<Rightarrow> 'a list \<Rightarrow> 'a list" where
  "or_else x d = (if truthy x then the x else d)"

text \<open>The optional clause \<open>AND e.database IN (?, ..., ?)\<close>, added when \<open>databases\<close> is true.\<close>

definition db_filter :: "string list option \<Rightarrow> entity \<Rightarrow> bool" where
  "db_filter databases e =
     (case databases of None \<Rightarrow> True
      | Some ds \<Rightarrow> (if ds = [] then True else e_database e \<in> set ds))"

subsection \<open>What the sqlite3 module and the engine refuse\<close>

text \<open>
  The sqlite3 module binds a Python integer as a 64-bit INTEGER and raises
  OverflowError for one that does not fit.
\<close>

definition fits_int64 :: "int \<Rightarrow> bool" where
  "fits_int64 i \<longleftrightarrow> - (2 ^ 63) \<le> i \<and> i < 2 ^ 63"

definition int_too_large :: exn where
  "int_too_large = OverflowError ''Python int too large to convert to SQLite INTEGER''"

text \<open>
  SQLite is built with a largest number of \<open>?\<close> parameters in a statement and a largest
  number of bytes in a LIKE pattern; a statement with more parameters is not prepared,
  and LIKE with a longer pattern fails when it is evaluated. The two numbers belong to
  the build of the library (50000 bytes and 32766 parameters unless it was built
  otherwise) and are arguments of the operations that meet them.
\<close>

record sqlite_limits =
  like_pattern_length :: nat
  variable_number :: nat

definition too_many_variables :: exn where
  "too_many_variables = OperationalError ''too many SQL variables''"

definition pattern_too_complex :: exn where
  "pattern_too_complex = OperationalError ''LIKE or GLOB pattern too complex''"

text \<open>The bytes of a text in UTF-8: two for a character from 128 on.\<close>

definition utf8_length :: "string \<Rightarrow> nat" where
  "utf8_length s = length s + length (filter (\<lambda>c. CHR 0x7F < c) s)"

subsection \<open>retrieve\_memory\<close>

datatype retrieve_result =
  RetrieveSuccess string string string string string string "(string \<times> string) list"
| RetrieveFailure string

text \<open>
  The success carries \<open>name\<close>, \<open>type\<close>, \<open>database\<close>, \<open>salience\<close>, \<open>created\<close>,
  \<open>updated\<close> and the observations as pairs of \<open>content\<close> and \<open>added\<close>.
\<close>

definition quoted :: "string \<Rightarrow> string" where
  "quoted s = [CHR 0x27] @ s @ [CHR 0x27]"

text \<open>
  The \<open>try\<close> block has a \<open>finally\<close> and no \<open>except\<close>: an exception of a statement
  leaves the function after the connection is closed. The function writes nothing.
\<close>

definition retrieve_memory ::
  "faults \<Rightarrow> memory_db \<Rightarrow> string \<Rightarrow> string \<Rightarrow> exn + retrieve_result" where
  "retrieve_memory flt db entity_name database =
     (case flt 0 of Some ex \<Rightarrow> Inl ex | None \<Rightarrow>
      (case select_entity db entity_name database of
         None \<Rightarrow> Inr (RetrieveFailure (''Entity '' @ quoted entity_name @
                          '' not found in database '' @ quoted database))
       | Some entity \<Rightarrow>
          (case flt 1 of Some ex \<Rightarrow> Inl ex | None \<Rightarrow>
           let obs = order_by_desc o_added_at
                       (filter (\<lambda>ob. o_entity_id ob = e_id entity) (observations db))
           in Inr (RetrieveSuccess (e_name entity) (e_entity_type entity) (e_database entity)
                     (e_salience entity) (e_created_at entity) (e_updated_at entity)
                     (map (\<lambda>ob. (o_content ob, o_added_at ob)) obs)))))"

subsection \<open>search\_memories\<close>

text \<open>
  A fetched row: the entity's columns with \<open>o.content\<close> and \<open>o.added_at\<close>, both NULL
  when the LEFT JOIN found no observation.
\<close>

type_synonym search_row = "entity \<times> (string \<times> string) option"

text \<open>
  The WHERE clause \<open>(e.name LIKE ? OR o.content LIKE ?)\<close> with the optional clause on
  the database; \<open>NULL LIKE ?\<close> is not true.
\<close>

definition search_where ::
  "string \<Rightarrow> string list option \<Rightarrow> entity \<times> observation option \<Rightarrow> bool" where
  "search_where search_pattern databases row =
     (case row of (e, oo) \<Rightarrow>
        (like search_pattern (e_name e) \<or>
         (case oo of None \<Rightarrow> False | Some ob \<Rightarrow> like search_pattern (o_content ob)))
        \<and> db_filter databases e)"

text \<open>\<open>SELECT DISTINCT e.*, o.content, o.added_at\<close>: the rows that differ, before they are ordered.\<close>

definition search_candidates ::
  "memory_db \<Rightarrow> string \<Rightarrow> string list option \<Rightarrow> search_row list" where
  "search_candidates db search_pattern databases =
     remdups (map (\<lambda>(e, oo). (e, map_option (\<lambda>ob. (o_content ob, o_added_at ob)) oo))
                  (filter (search_where search_pattern databases) (left_join db)))"

text \<open>
  \<open>ORDER BY e.updated_at DESC LIMIT ?\<close>: what \<open>fetchall()\<close> may return, one list of
  rows for each order of the rows that differ. The rows of one entity have the same
  \<open>updated_at\<close>, so their order is always open.
\<close>

definition search_fetches ::
  "memory_db \<Rightarrow> string \<Rightarrow> string list option \<Rightarrow> int \<Rightarrow> search_row list list" where
  "search_fetches db search_pattern databases limit =
     remdups (map (sql_limit limit)
                  (sql_orders (\<lambda>(e, co). e_updated_at e)
                     (search_candidates db search_pattern databases)))"

text \<open>
  What the statement raises for the values bound. It has three parameters and one more
  for each database; the limit is bound as an INTEGER; and LIKE is evaluated, on the
  rows of an entity that passes the clause on the database, unless the limit is 0, in
  which case SQLite reads no row.
\<close>

definition search_error ::
  "sqlite_limits \<Rightarrow> memory_db \<Rightarrow> string \<Rightarrow> string list option \<Rightarrow> int \<Rightarrow> exn option" where
  "search_error lim db search_pattern databases limit =
     (if variable_number lim < 3 + length (or_else databases []) then Some too_many_variables
      else if \<not> fits_int64 limit then Some int_too_large
      else if limit \<noteq> 0 \<and> like_pattern_length lim < utf8_length search_pattern \<and>
              list_ex (db_filter databases) (entities db)
        then Some pattern_too_complex
      else None)"

record search_entry =
  s_name :: string
  s_type :: string
  s_database :: string
  s_salience :: string
  s_observations :: "(string \<times> string) list"

text \<open>
  One turn of the loop over the fetched rows. \<open>entities_map\<close> is a dictionary keyed by
  the entity id; it keeps its keys in the order of their first insertion, so it is a list
  of pairs. \<open>if row['content']\<close> is false for NULL and for the empty string.
\<close>

definition add_row :: "(nat \<times> search_entry) list \<Rightarrow> search_row \<Rightarrow> (nat \<times> search_entry) list" where
  "add_row m row =
     (let e = fst row;
          m1 = (if e_id e \<in> fst ` set m then m
                else m @ [(e_id e, \<lparr>s_name = e_name e, s_type = e_entity_type e,
                                     s_database = e_database e, s_salience = e_salience e,
                                     s_observations = []\<rparr>)])
      in case snd row of
           None \<Rightarrow> m1
         | Some (c, a) \<Rightarrow>
             if c = [] then m1
             else map (\<lambda>(k, v). if k = e_id e
                                 then (k, v\<lparr>s_observations := s_observations v @ [(c, a)]\<rparr>)
                                 else (k, v)) m1)"

definition entities_map :: "search_row list \<Rightarrow> (nat \<times> search_entry) list" where
  "entities_map rows = foldl add_row [] rows"

datatype search_result = SearchSuccess string nat "search_entry list"

text \<open>The dictionary returned: \<open>query\<close>, \<open>count\<close> and \<open>results\<close>, built from the rows fetched.\<close>

definition search_success :: "string \<Rightarrow> search_row list \<Rightarrow> search_result" where
  "search_success query results =
     (let m = entities_map results in SearchSuccess query (length m) (map snd m))"

text \<open>
  Statement 0 is the query. There is no \<open>except\<close>: an exception reaches the caller. The
  value is the list of what the call may return, one item for each list of rows that
  the query may fetch.
\<close>

definition search_memories ::
  "sqlite_limits \<Rightarrow> faults \<Rightarrow> memory_db \<Rightarrow> string \<Rightarrow> string list option \<Rightarrow> int
   \<Rightarrow> (exn + search_result) list" where
  "search_memories lim flt db query databases limit =
     (let search_pattern = ''%'' @ query @ ''%''
      in case flt 0 of Some ex \<Rightarrow> [Inl ex] | None \<Rightarrow>
         (case search_error lim db search_pattern databases limit of
            Some ex \<Rightarrow> [Inl ex]
          | None \<Rightarrow>
             remdups (map (\<lambda>results. Inr (search_success query results))
                          (search_fetches db search_pattern databases limit))))"

subsection \<open>update\_entity\<close>

datatype column = Name | Entity_type | Salience | Updated_at

text \<open>
  The lists \<open>updates\<close> and \<open>params\<close> as one list of assignments; \<open>if new_name:\<close> and
  its siblings are false for \<open>None\<close> and for the empty string.
\<close>

definition updates_of ::
  "string option \<Rightarrow> string option \<Rightarrow> string option \<Rightarrow> (column \<times> string) list" where
  "updates_of new_name new_type new_salience =
     (if truthy new_name then [(Name, the new_name)] else []) @
     (if truthy new_type then [(Entity_type, the new_type)] else []) @
     (if truthy new_salience then [(Salience, the new_salience)] else [])"

fun set_column :: "entity \<Rightarrow> column \<times> string \<Rightarrow> entity" where
  "set_column e (Name, v) = e\<lparr>e_name := v\<rparr>"
| "set_column e (Entity_type, v) = e\<lparr>e_entity_type := v\<rparr>"
| "set_column e (Salience, v) = e\<lparr>e_salience := v\<rparr>"
| "set_column e (Updated_at, v) = e\<lparr>e_updated_at := v\<rparr>"

text \<open>
  \<open>UPDATE entities SET ... WHERE id = ?\<close>: the statement fails when a changed row
  would share its name and database with another row.
\<close>

definition update_entities :: "memory_db \<Rightarrow> (column \<times> string) list \<Rightarrow> nat \<Rightarrow> exn + memory_db" where
  "update_entities db sets i =
     (let changed = map (\<lambda>e. if e_id e = i then foldl set_column e sets else e) (entities db)
      in if \<exists>e \<in> set changed. e_id e = i \<and>
              (\<exists>e' \<in> set changed. e_id e' \<noteq> i \<and> e_name e' = e_name e
                                   \<and> e_database e' = e_database e)
         then Inl unique_failed
         else Inr (db\<lparr>entities := changed\<rparr>))"

datatype update_result = UpdateSuccess string | UpdateFailure string

text \<open>
  Statement 0 is the lookup, 1 the UPDATE, 2 the commit. There is no \<open>except\<close>: an
  exception reaches the caller, and the connection is closed with nothing committed.
\<close>

definition update_entity ::
  "faults \<Rightarrow> string \<Rightarrow> memory_db \<Rightarrow> string \<Rightarrow> string \<Rightarrow> string option \<Rightarrow> string option
   \<Rightarrow> string option \<Rightarrow> (exn + update_result) \<times> memory_db" where
  "update_entity flt now db entity_name database new_name new_type new_salience =
     (case flt 0 of Some ex \<Rightarrow> (Inl ex, db) | None \<Rightarrow>
      (case select_entity db entity_name database of
         None \<Rightarrow> (Inr (UpdateFailure (''Entity '' @ quoted entity_name @ '' not found'')), db)
       | Some entity \<Rightarrow>
          let updates = updates_of new_name new_type new_salience in
          if updates = [] then (Inr (UpdateFailure ''No updates specified''), db)
          else
            (case flt 1 of Some ex \<Rightarrow> (Inl ex, db) | None \<Rightarrow>
             (case update_entities db (updates @ [(Updated_at, now)]) (e_id entity) of
                Inl ex \<Rightarrow> (Inl ex, db)
              | Inr db1 \<Rightarrow>
                 (case flt 2 of Some ex \<Rightarrow> (Inl ex, db) | None \<Rightarrow>
                  (Inr (UpdateSuccess (''Entity '' @ quoted entity_name @
                          '' updated successfully'')), db1))))))"

subsection \<open>get\_context\_block\<close>

text \<open>\<open>sep.join(parts)\<close>.\<close>

fun join :: "string \<Rightarrow> string list \<Rightarrow> string" where
  "join sep [] = []"
| "join sep [x] = x"
| "join sep (x # y # ys) = x @ sep @ join sep (y # ys)"

text \<open>
  The slice \<open>s[:k]\<close>: a negative \<open>k\<close> counts from the end of the string.
\<close>

definition slice_to :: "'a list \<Rightarrow> int \<Rightarrow> 'a list" where
  "slice_to s k = (if 0 \<le> k then take (nat k) s else take (length s - nat (- k)) s)"

text \<open>
  The first query: the LEFT JOIN restricted to foundational entities, newest first.
  The value lists what \<open>fetchall()\<close> may return, one list of rows for each order
  that the query allows; the rows of one entity have the same \<open>updated_at\<close>.
\<close>

definition foundational_fetches ::
  "memory_db \<Rightarrow> string list option \<Rightarrow> (entity \<times> observation option) list list" where
  "foundational_fetches db databases =
     sql_orders (\<lambda>(e, oo). e_updated_at e)
       (filter (\<lambda>(e, oo). e_salience e = ''foundational'' \<and> db_filter databases e)
               (left_join db))"

text \<open>
  One turn of the loop that fills \<open>entity_obs\<close>, a dictionary keyed by the entity's
  name, holding the type of the first row of that name and the contents met.
\<close>

definition add_foundational ::
  "(string \<times> string \<times> string list) list \<Rightarrow> entity \<times> observation option
   \<Rightarrow> (string \<times> string \<times> string list) list" where
  "add_foundational m row =
     (let e = fst row;
          m1 = (if e_name e \<in> fst ` set m then m else m @ [(e_name e, e_entity_type e, [])])
      in case snd row of
           None \<Rightarrow> m1
         | Some ob \<Rightarrow>
             if o_content ob = [] then m1
             else map (\<lambda>(k, ty, obs). if k = e_name e then (k, ty, obs @ [o_content ob])
                                        else (k, ty, obs)) m1)"

definition core_knowledge :: "(entity \<times> observation option) list \<Rightarrow> string list" where
  "core_knowledge foundational =
     (if foundational = [] then []
      else [''## Core Knowledge''] @
           map (\<lambda>(name, ty, obs). name @ '' ('' @ ty @ ''): '' @ join ''; '' (take 3 obs))
               (take 10 (foldl add_foundational [] foundational)) @
           [[]])"

text \<open>
  The second query: observations added after \<open>cutoff_iso\<close>, newest first, ten at most.
  \<open>cutoff_iso\<close> is the clock's time less \<open>include_recent_hours\<close> hours in ISO format;
  like the time of the header it is an argument here, and a number of hours for which
  the clock's library cannot compute that time is outside the model. Again the value
  lists what \<open>fetchall()\<close> may return.
\<close>

definition recent_fetches ::
  "memory_db \<Rightarrow> string \<Rightarrow> string list option \<Rightarrow> (entity \<times> observation) list list" where
  "recent_fetches db cutoff_iso databases =
     remdups (map (sql_limit 10)
       (sql_orders (\<lambda>(e, ob). o_added_at ob)
          (filter (\<lambda>(e, ob). cutoff_iso < o_added_at ob \<and> db_filter databases e)
                  (inner_join db))))"

definition recent_activity :: "(entity \<times> observation) list \<Rightarrow> string list" where
  "recent_activity recent =
     (if recent = [] then []
      else [''## Recent Activity''] @
           map (\<lambda>(e, ob). e_name e @ '': '' @ o_content ob) recent @
           [[]])"

definition newline :: string where
  "newline = [CHR 0x0A]"

text \<open>The text before the length is enforced.\<close>

definition assemble ::
  "string \<Rightarrow> (entity \<times> observation option) list \<Rightarrow> (entity \<times> observation) list \<Rightarrow> string" where
  "assemble now foundational recent =
     join newline
       ([''[COMPANION MEMORY CONTEXT]'', ''Last updated: '' @ now, []] @
        core_knowledge foundational @
        recent_activity recent @
        [''[END MEMORY CONTEXT]'', []])"

definition truncation_marker :: string where
  "truncation_marker =
     newline @ ''...[truncated]'' @ newline @ ''[END MEMORY CONTEXT]'' @ newline @ newline"

definition enforce_length :: "string \<Rightarrow> int \<Rightarrow> string" where
  "enforce_length result max_length =
     (if int (length result) > max_length
      then slice_to result (max_length - 50) @ truncation_marker
      else result)"

text \<open>
  Statement 0 is the first query, statement 1 the second; neither is caught. The first
  has one parameter for each database and the second one more. The value is the list
  of what the call may return, one item for each pair of lists of rows that the two
  queries may fetch.
\<close>

definition get_context_block ::
  "sqlite_limits \<Rightarrow> faults \<Rightarrow> string \<Rightarrow> string \<Rightarrow> memory_db \<Rightarrow> int \<Rightarrow> string list option
   \<Rightarrow> (exn + string) list" where
  "get_context_block lim flt now cutoff_iso db max_length databases =
     (case flt 0 of Some ex \<Rightarrow> [Inl ex] | None \<Rightarrow>
      if variable_number lim < length (or_else databases []) then [Inl too_many_variables]
      else
        (case flt 1 of Some ex \<Rightarrow> [Inl ex] | None \<Rightarrow>
         if variable_number lim < 1 + length (or_else databases []) then [Inl too_many_variables]
         else
           remdups (concat (map (\<lambda>foundational.
               map (\<lambda>recent. Inr (enforce_length (assemble now foundational recent) max_length))
                   (recent_fetches db cutoff_iso databases))
             (foundational_fetches db databases)))))"

subsection \<open>Runs of store\_memory and predicates of the claims\<close>



text \<open>The number of entity rows of a name and database.\<close>

definition rows_of :: "memory_db \<Rightarrow> string \<Rightarrow> string \<Rightarrow> nat" where
  "rows_of db n d = length (filter (\<lambda>e. e_name e = n \<and> e_database e = d) (entities db))"

text \<open>Every entity row has an observation row.\<close>

definition all_observed :: "memory_db \<Rightarrow> bool" where
  "all_observed db =
     list_all (\<lambda>e. list_ex (\<lambda>ob. o_entity_id ob = e_id e) (observations db)) (entities db)"

text \<open>The \<open>updated_at\<close> of the entity of an id.\<close>

definition updated_of :: "memory_db \<Rightarrow> nat \<Rightarrow> string" where
  "updated_of db i =
     (case find (\<lambda>e. e_id e = i) (entities db) of Some e \<Rightarrow> e_updated_at e | None \<Rightarrow> [])"

text \<open>
  The observations that the fetched rows carry for the entity of an id: content and time
  of each row of that entity whose content is not empty, in the order of the rows.
\<close>

definition fetched_observations :: "nat \<Rightarrow> search_row list \<Rightarrow> (string \<times> string) list" where
  "fetched_observations k rows =
     concat (map (\<lambda>row. if e_id (fst row) = k
                         then (case snd row of None \<Rightarrow> []
                               | Some (c, a) \<Rightarrow> if c = [] then [] else [(c, a)])
                         else []) rows)"

section \<open>The journal of memory\_server.py\<close>

subsection \<open>JSON text, as json.dumps writes it and json.loads reads it\<close>

text \<open>
  The values that \<open>artifacts\<close> and \<open>tags\<close> hold: \<open>None\<close>, booleans, integers, strings,
  lists, tuples, and dictionaries with string keys. A dictionary is the list of its
  items in insertion order, its keys distinct. Floating point numbers and dictionaries
  with keys that are not strings are outside the model.
\<close>

datatype json =
  JNull
| JBool bool
| JInt int
| JString string
| JArray "json list"
| JTuple "json list"
| JObject "(string \<times> json) list"

definition dquote :: char where
  "dquote = CHR 0x22"

definition backslash :: char where
  "backslash = CHR 0x5C"

definition hex_digits :: string where
  "hex_digits = ''0123456789abcdef''"

text \<open>
  \<open>json.dumps(..., ensure_ascii=False)\<close> escapes the quote, the backslash and the
  control characters below \<open>0x20\<close>, and writes every other character as it is.
\<close>

definition escape_char :: "char \<Rightarrow> string" where
  "escape_char c =
     (if c = dquote then [backslash, dquote]
      else if c = backslash then [backslash, backslash]
      else if c = CHR 0x0A then [backslash, CHR ''n'']
      else if c = CHR 0x0D then [backslash, CHR ''r'']
      else if c = CHR 0x09 then [backslash, CHR ''t'']
      else if c = CHR 0x08 then [backslash, CHR ''b'']
      else if c = CHR 0x0C then [backslash, CHR ''f'']
      else if c < CHR 0x20
        then [backslash, CHR ''u'', CHR ''0'', CHR ''0'',
              hex_digits ! (of_char c div 16), hex_digits ! (of_char c mod 16)]
      else [c])"

definition dumps_string :: "string \<Rightarrow> string" where
  "dumps_string s = [dquote] @ concat (map escape_char s) @ [dquote]"

fun digits :: "nat \<Rightarrow> string" where
  "digits n = (if n < 10 then [char_of (48 + n)] else digits (n div 10) @ [char_of (48 + n mod 10)])"

definition dumps_int :: "int \<Rightarrow> string" where
  "dumps_int i = (if i < 0 then ''-'' @ digits (nat (- i)) else digits (nat i))"

text \<open>
  The default separators are \<open>', '\<close> between items and \<open>': '\<close> after a key. A tuple is
  written as a list is.
\<close>

fun json_dumps :: "json \<Rightarrow> string" where
  "json_dumps JNull = ''null''"
| "json_dumps (JBool b) = (if b then ''true'' else ''false'')"
| "json_dumps (JInt i) = dumps_int i"
| "json_dumps (JString s) = dumps_string s"
| "json_dumps (JArray xs) = ''['' @ join '', '' (map json_dumps xs) @ '']''"
| "json_dumps (JTuple xs) = ''['' @ join '', '' (map json_dumps xs) @ '']''"
| "json_dumps (JObject kvs) =
     ''{'' @ join '', '' (map (\<lambda>kv. dumps_string (fst kv) @ '': '' @ json_dumps (snd kv)) kvs) @ ''}''"

text \<open>
  The decoder. \<open>None\<close> stands for the JSONDecodeError that \<open>json.loads\<close> raises; a number
  with a fraction or an exponent, and a \<open>\u\<close> escape beyond \<open>00ff\<close>, are outside the
  model and are answered by \<open>None\<close> as well.
\<close>

definition is_ws :: "char \<Rightarrow> bool" where
  "is_ws c = (c = CHR '' '' \<or> c = CHR 0x09 \<or> c = CHR 0x0A \<or> c = CHR 0x0D)"

definition skip_ws :: "string \<Rightarrow> string" where
  "skip_ws s = dropWhile is_ws s"

fun strip_prefix :: "string \<Rightarrow> string \<Rightarrow> string option" where
  "strip_prefix [] s = Some s"
| "strip_prefix (p # ps) [] = None"
| "strip_prefix (p # ps) (c # cs) = (if p = c then strip_prefix ps cs else None)"

definition hex_val :: "char \<Rightarrow> nat option" where
  "hex_val c = map_of (zip hex_digits [0..<16] @ zip ''ABCDEF'' [10..<16]) c"

definition hex4 :: "char \<Rightarrow> char \<Rightarrow> char \<Rightarrow> char \<Rightarrow> char option" where
  "hex4 a b c d =
     (case (hex_val a, hex_val b, hex_val c, hex_val d) of
        (Some x, Some y, Some z, Some w) \<Rightarrow>
          (if x = 0 \<and> y = 0 then Some (char_of (16 * z + w)) else None)
      | _ \<Rightarrow> None)"

definition unescape :: "char \<Rightarrow> char option" where
  "unescape e =
     (if e = dquote then Some dquote
      else if e = backslash then Some backslash
      else if e = CHR ''/'' then Some (CHR ''/'')
      else if e = CHR ''n'' then Some (CHR 0x0A)
      else if e = CHR ''r'' then Some (CHR 0x0D)
      else if e = CHR ''t'' then Some (CHR 0x09)
      else if e = CHR ''b'' then Some (CHR 0x08)
      else if e = CHR ''f'' then Some (CHR 0x0C)
      else None)"

text \<open>The characters of a string after its opening quote, up to the closing quote.\<close>

fun parse_chars :: "string \<Rightarrow> (string \<times> string) option" where
  "parse_chars [] = None"
| "parse_chars (c # cs) =
     (if c = dquote then Some ([], cs)
      else if c = backslash then
        (case cs of
           [] \<Rightarrow> None
         | e # cs1 \<Rightarrow>
            if e = CHR ''u'' then
              (case cs1 of
                 h1 # h2 # h3 # h4 # cs2 \<Rightarrow>
                   (case hex4 h1 h2 h3 h4 of
                      None \<Rightarrow> None
                    | Some ch \<Rightarrow> map_option (apfst ((#) ch)) (parse_chars cs2))
               | _ \<Rightarrow> None)
            else
              (case unescape e of
                 None \<Rightarrow> None
               | Some ch \<Rightarrow> map_option (apfst ((#) ch)) (parse_chars cs1)))
      else if c < CHR 0x20 then None
      else map_option (apfst ((#) c)) (parse_chars cs))"

definition is_digit :: "char \<Rightarrow> bool" where
  "is_digit c = (CHR ''0'' \<le> c \<and> c \<le> CHR ''9'')"

definition parse_nat :: "string \<Rightarrow> (nat \<times> string) option" where
  "parse_nat s =
     (let ds = takeWhile is_digit s
      in if ds = [] \<or> (1 < length ds \<and> hd ds = CHR ''0'') then None
         else Some (foldl (\<lambda>a d. 10 * a + (of_char d - 48)) 0 ds, dropWhile is_digit s))"

definition parse_int :: "string \<Rightarrow> (int \<times> string) option" where
  "parse_int s =
     (case s of
        [] \<Rightarrow> None
      | c # cs \<Rightarrow>
          if c = CHR ''-'' then map_option (apfst (\<lambda>n. - int n)) (parse_nat cs)
          else map_option (apfst int) (parse_nat s))"

text \<open>
  \<open>dict(pairs)\<close>: a key met again keeps its place and takes the later value.
\<close>

fun dict_set :: "(string \<times> json) list \<Rightarrow> string \<times> json \<Rightarrow> (string \<times> json) list" where
  "dict_set [] kv = [kv]"
| "dict_set (x # xs) kv = (if fst x = fst kv then kv # xs else x # dict_set xs kv)"

definition dict_of_pairs :: "(string \<times> json) list \<Rightarrow> (string \<times> json) list" where
  "dict_of_pairs pairs = foldl dict_set [] pairs"

text \<open>
  The recursive descent, bounded by a count of nested calls that \<open>json_loads\<close> sets
  above the length of the text, which no descent can exceed.
\<close>

fun parse_value :: "nat \<Rightarrow> string \<Rightarrow> (json \<times> string) option"
  and parse_elements :: "nat \<Rightarrow> string \<Rightarrow> (json list \<times> string) option"
  and parse_members :: "nat \<Rightarrow> string \<Rightarrow> ((string \<times> json) list \<times> string) option" where
  "parse_value 0 s = None"
| "parse_value (Suc n) s =
     (case skip_ws s of
        [] \<Rightarrow> None
      | c # cs \<Rightarrow>
          if c = CHR ''n'' then map_option (Pair JNull) (strip_prefix ''ull'' cs)
          else if c = CHR ''t'' then map_option (Pair (JBool True)) (strip_prefix ''rue'' cs)
          else if c = CHR ''f'' then map_option (Pair (JBool False)) (strip_prefix ''alse'' cs)
          else if c = dquote then map_option (apfst JString) (parse_chars cs)
          else if c = CHR ''['' then
            (case skip_ws cs of
               [] \<Rightarrow> None
             | d # ds \<Rightarrow>
                 if d = CHR '']'' then Some (JArray [], ds)
                 else map_option (apfst JArray) (parse_elements n (d # ds)))
          else if c = CHR ''{'' then
            (case skip_ws cs of
               [] \<Rightarrow> None
             | d # ds \<Rightarrow>
                 if d = CHR ''}'' then Some (JObject [], ds)
                 else map_option (apfst (\<lambda>ps. JObject (dict_of_pairs ps)))
                        (parse_members n (d # ds)))
          else map_option (apfst JInt) (parse_int (c # cs)))"
| "parse_elements 0 s = None"
| "parse_elements (Suc n) s =
     (case parse_value n s of
        None \<Rightarrow> None
      | Some (v, r) \<Rightarrow>
          (case skip_ws r of
             [] \<Rightarrow> None
           | c # cs \<Rightarrow>
               if c = CHR '','' then map_option (apfst ((#) v)) (parse_elements n cs)
               else if c = CHR '']'' then Some ([v], cs)
               else None))"
| "parse_members 0 s = None"
| "parse_members (Suc n) s =
     (case skip_ws s of
        [] \<Rightarrow> None
      | c # cs \<Rightarrow>
          if c \<noteq> dquote then None
          else
            (case parse_chars cs of
               None \<Rightarrow> None
             | Some (k, r) \<Rightarrow>
                 (case skip_ws r of
                    [] \<Rightarrow> None
                  | c1 # r1 \<Rightarrow>
                      if c1 \<noteq> CHR '':'' then None
                      else
                        (case parse_value n r1 of
                           None \<Rightarrow> None
                         | Some (v, r2) \<Rightarrow>
                             (case skip_ws r2 of
                                [] \<Rightarrow> None
                              | c2 # r3 \<Rightarrow>
                                  if c2 = CHR '','' then
                                    map_option (apfst ((#) (k, v))) (parse_members n r3)
                                  else if c2 = CHR ''}'' then Some ([(k, v)], r3)
                                  else None)))))"

definition json_loads :: "string \<Rightarrow> json option" where
  "json_loads s =
     (case parse_value (Suc (length s)) s of
        None \<Rightarrow> None
      | Some (v, r) \<Rightarrow> if skip_ws r = [] then Some v else None)"

text \<open>
  A value of JSON: it holds no tuple, and its dictionaries, at every depth, have
  distinct keys.
\<close>

fun wf_json :: "json \<Rightarrow> bool" where
  "wf_json (JArray xs) = list_all wf_json xs"
| "wf_json (JTuple xs) = False"
| "wf_json (JObject kvs) = (distinct (map fst kvs) \<and> list_all (\<lambda>kv. wf_json (snd kv)) kvs)"
| "wf_json v = True"

text \<open>
  \<open>json.dumps\<close> and \<open>json.loads\<close> call themselves once for each level of lists and
  dictionaries, and the interpreter ends a call chain that is too long with
  RecursionError; it also refuses, with ValueError, to write or read an integer of more
  than 4300 digits. Neither is part of the model. \<open>within_limits d v\<close> says that \<open>v\<close>
  has at most \<open>d\<close> levels and no integer of more than 4300 digits.
\<close>

fun within_limits :: "nat \<Rightarrow> json \<Rightarrow> bool" where
  "within_limits d (JInt i) = (length (digits (nat \<bar>i\<bar>)) \<le> 4300)"
| "within_limits d (JArray xs) = (0 < d \<and> list_all (within_limits (d - 1)) xs)"
| "within_limits d (JTuple xs) = (0 < d \<and> list_all (within_limits (d - 1)) xs)"
| "within_limits d (JObject kvs) =
     (0 < d \<and> list_all (\<lambda>kv. within_limits (d - 1) (snd kv)) kvs)"
| "within_limits d v = True"

subsection \<open>Measures and predicates for the reading back of written JSON\<close>

text \<open>The nested calls that the descent makes on the text of a value, at most.\<close>

fun need :: "json \<Rightarrow> nat" where
  "need (JArray xs) = Suc (sum_list (map (\<lambda>x. Suc (need x)) xs))"
| "need (JObject kvs) = Suc (sum_list (map (\<lambda>kv. Suc (need (snd kv))) kvs))"
| "need v = 1"

text \<open>A text that starts like a value: not with white space, a closing bracket or a comma.\<close>

definition starts_value :: "string \<Rightarrow> bool" where
  "starts_value s =
     (case s of [] \<Rightarrow> False
      | c # cs \<Rightarrow> \<not> is_ws c \<and> c \<noteq> CHR '']'' \<and> c \<noteq> CHR ''}'' \<and> c \<noteq> CHR '','')"

text \<open>A text that may follow a number: it does not go on with a digit.\<close>

definition follow_ok :: "string \<Rightarrow> bool" where
  "follow_ok r = (case r of [] \<Rightarrow> True | c # cs \<Rightarrow> \<not> is_digit c)"

text \<open>
  A value is read back when the descent, given calls enough, reads the value off the
  front of its written text and stops where that text ends.
\<close>

definition reads_back :: "json \<Rightarrow> bool" where
  "reads_back v \<longleftrightarrow>
     (\<forall>n r. need v \<le> n \<longrightarrow> follow_ok r \<longrightarrow> parse_value n (json_dumps v @ r) = Some (v, r))"

subsection \<open>The tables of the journal\<close>

text \<open>
  \<open>init_void_database\<close> creates the table \<open>entries\<close>, whose columns other than the id
  and \<open>created_at\<close> may be NULL, the full-text index \<open>entries_fts\<close> with one row per
  rowid, and three triggers. Trigger \<open>entries_ai\<close> runs inside every INSERT on
  \<open>entries\<close>. Triggers \<open>entries_ad\<close> and \<open>entries_au\<close> run on DELETE and UPDATE, which no
  operation of the program issues; they are not part of the model. \<open>void_search\<close> reads
  the index through the query language of FTS5 and writes nothing; it is not part of
  the model either.
\<close>

record entry =
  j_id :: nat
  j_created_at :: string
  j_session_id :: "string option"
  j_thread_id :: "string option"
  j_title :: "string option"
  j_summary :: "string option"
  j_decisions :: "string option"
  j_open_loops :: "string option"
  j_artifacts_json :: "string option"
  j_tags_json :: "string option"
  j_importance :: "int option"

record fts_row =
  f_rowid :: nat
  f_title :: string
  f_summary :: string
  f_decisions :: string
  f_open_loops :: string
  f_artifacts_text :: string
  f_tags_text :: string

record void_db =
  entries :: "entry list"
  entries_fts :: "fts_row list"
  entries_seq :: nat

text \<open>\<open>COALESCE(x, '')\<close>.\<close>

definition coalesce :: "string option \<Rightarrow> string" where
  "coalesce x = (case x of None \<Rightarrow> [] | Some s \<Rightarrow> s)"

text \<open>The row that trigger \<open>entries_ai\<close> inserts into the index for a new entry.\<close>

definition index_row :: "entry \<Rightarrow> fts_row" where
  "index_row new =
     \<lparr>f_rowid = j_id new,
      f_title = coalesce (j_title new),
      f_summary = coalesce (j_summary new),
      f_decisions = coalesce (j_decisions new),
      f_open_loops = coalesce (j_open_loops new),
      f_artifacts_text = coalesce (j_artifacts_json new),
      f_tags_text = coalesce (j_tags_json new)\<rparr>"

definition entries_ai :: "void_db \<Rightarrow> entry \<Rightarrow> void_db" where
  "entries_ai db new = db\<lparr>entries_fts := entries_fts db @ [index_row new]\<rparr>"

text \<open>
  \<open>INSERT INTO entries (created_at, ..., importance) VALUES (?, ..., ?)\<close> with its
  trigger; the values are given as an entry whose id is not read. Returns
  \<open>cur.lastrowid\<close> with the new tables. A rowid is a 64-bit integer: when the largest
  one has been used, an AUTOINCREMENT table takes no more rows.
\<close>

definition table_full :: exn where
  "table_full = OperationalError ''database or disk is full''"

definition insert_entry :: "void_db \<Rightarrow> entry \<Rightarrow> exn + (nat \<times> void_db)" where
  "insert_entry db vals =
     (let i = next_rowid (entries_seq db) (map j_id (entries db));
          new = vals\<lparr>j_id := i\<rparr>
      in if \<not> fits_int64 (int i) then Inl table_full
         else Inr (i, entries_ai (db\<lparr>entries := entries db @ [new], entries_seq := i\<rparr>) new))"

subsection \<open>void\_write\_entry and void\_append\_snippet\<close>

datatype write_result = WriteOk nat

text \<open>
  Statement 0 is the INSERT, statement 1 the commit. The function has no \<open>try\<close>: an
  exception reaches the caller, and leaving \<open>async with\<close> closes the connection with
  nothing committed. \<open>importance\<close> is bound as an INTEGER.
\<close>

definition void_write_entry ::
  "faults \<Rightarrow> string \<Rightarrow> void_db \<Rightarrow> string \<Rightarrow> string \<Rightarrow> string option \<Rightarrow> string option
   \<Rightarrow> (string \<times> json) list option \<Rightarrow> string list option \<Rightarrow> int
   \<Rightarrow> string option \<Rightarrow> string option \<Rightarrow> (exn + write_result) \<times> void_db" where
  "void_write_entry flt now db title summary decisions open_loops artifacts tags importance
     session_id thread_id =
     (let artifacts_json = json_dumps (JObject (or_else artifacts []));
          tags_json = json_dumps (JArray (map JString (or_else tags [])))
      in case flt 0 of Some ex \<Rightarrow> (Inl ex, db) | None \<Rightarrow>
         if \<not> fits_int64 importance then (Inl int_too_large, db)
         else
           (case insert_entry db
                   \<lparr>j_id = 0, j_created_at = now, j_session_id = session_id,
                    j_thread_id = thread_id, j_title = Some title, j_summary = Some summary,
                    j_decisions = decisions, j_open_loops = open_loops,
                    j_artifacts_json = Some artifacts_json, j_tags_json = Some tags_json,
                    j_importance = Some importance\<rparr> of
              Inl ex \<Rightarrow> (Inl ex, db)
            | Inr (entry_id, db1) \<Rightarrow>
               (case flt 1 of Some ex \<Rightarrow> (Inl ex, db)
                | None \<Rightarrow> (Inr (WriteOk entry_id), db1))))"

definition void_append_snippet ::
  "faults \<Rightarrow> string \<Rightarrow> void_db \<Rightarrow> string \<Rightarrow> string list option \<Rightarrow> string option
   \<Rightarrow> string option \<Rightarrow> int \<Rightarrow> (exn + write_result) \<times> void_db" where
  "void_append_snippet flt now db text tags session_id thread_id importance =
     void_write_entry flt now db ''Snippet'' text (Some []) (Some [])
       (Some [(''snippet'', JString text)]) (Some (or_else tags [''snippet'']))
       importance session_id thread_id"

subsection \<open>void\_get\_entry and void\_list\_recent\<close>

record entry_view =
  v_id :: nat
  v_created_at :: string
  v_session_id :: "string option"
  v_thread_id :: "string option"
  v_title :: "string option"
  v_summary :: "string option"
  v_decisions :: "string option"
  v_open_loops :: "string option"
  v_artifacts :: json
  v_tags :: json
  v_importance :: "int option"

datatype get_result = GetOk entry_view | GetNotFound

text \<open>
  \<open>SELECT * FROM entries WHERE id = ?\<close> with \<open>entry_id\<close> bound as an INTEGER, then the
  two calls of \<open>json.loads\<close>. Nothing is caught.
\<close>

definition void_get_entry :: "faults \<Rightarrow> void_db \<Rightarrow> int \<Rightarrow> exn + get_result" where
  "void_get_entry flt db entry_id =
     (case flt 0 of Some ex \<Rightarrow> Inl ex | None \<Rightarrow>
      if \<not> fits_int64 entry_id then Inl int_too_large
      else
        (case find (\<lambda>row. int (j_id row) = entry_id) (entries db) of
           None \<Rightarrow> Inr GetNotFound
         | Some row \<Rightarrow>
            (case json_loads (or_else (j_artifacts_json row) ''{}'') of
               None \<Rightarrow> Inl (JSONDecodeError ''artifacts_json'')
             | Some artifacts \<Rightarrow>
                (case json_loads (or_else (j_tags_json row) ''[]'') of
                   None \<Rightarrow> Inl (JSONDecodeError ''tags_json'')
                 | Some tags \<Rightarrow>
                    Inr (GetOk \<lparr>v_id = j_id row, v_created_at = j_created_at row,
                                v_session_id = j_session_id row, v_thread_id = j_thread_id row,
                                v_title = j_title row, v_summary = j_summary row,
                                v_decisions = j_decisions row, v_open_loops = j_open_loops row,
                                v_artifacts = artifacts, v_tags = tags,
                                v_importance = j_importance row\<rparr>)))))"

text \<open>
  \<open>SELECT id, created_at, title, importance FROM entries ORDER BY id DESC LIMIT ?\<close>; no
  two rows have the same id.
\<close>

definition void_list_recent ::
  "faults \<Rightarrow> void_db \<Rightarrow> int \<Rightarrow> exn + (nat \<times> string \<times> string option \<times> int option) list" where
  "void_list_recent flt db limit =
     (case flt 0 of Some ex \<Rightarrow> Inl ex | None \<Rightarrow>
      if \<not> fits_int64 limit then Inl int_too_large
      else Inr (map (\<lambda>row. (j_id row, j_created_at row, j_title row, j_importance row))
                  (sql_limit limit (order_by_desc j_id (entries db)))))"

subsection \<open>Runs of journal operations and predicates of the claims\<close>

datatype journal_op =
  Write_entry string string "string option" "string option" "(string \<times> json) list option"
    "string list option" int "string option" "string option"
| Append_snippet string "string list option" "string option" "string option" int
| Get_entry int
| List_recent int

text \<open>
  The tables after one operation, called at a time and disturbed by the faults given
  with it. The reading operations leave them as they are.
\<close>

fun journal_step :: "void_db \<Rightarrow> faults \<times> string \<times> journal_op \<Rightarrow> void_db" where
  "journal_step db (flt, now, Write_entry title summary decisions open_loops artifacts tags
      importance session_id thread_id) =
     snd (void_write_entry flt now db title summary decisions open_loops artifacts tags
            importance session_id thread_id)"
| "journal_step db (flt, now, Append_snippet text tags session_id thread_id importance) =
     snd (void_append_snippet flt now db text tags session_id thread_id importance)"
| "journal_step db (flt, now, Get_entry entry_id) = db"
| "journal_step db (flt, now, List_recent limit) = db"

text \<open>
  The index in step with the table: the index rows are, in order, the rows that the
  trigger derives from the entries, and no two entries share an id. So each entry id
  has exactly one index row and no index row is without its entry.
\<close>

definition fts_in_step :: "void_db \<Rightarrow> bool" where
  "fts_in_step db =
     (entries_fts db = map index_row (entries db) \<and> distinct (map j_id (entries db)))"

text \<open>The number of index rows, and of entries, of an id.\<close>

definition index_rows_of :: "void_db \<Rightarrow> nat \<Rightarrow> nat" where
  "index_rows_of db i = length (filter (\<lambda>r. f_rowid r = i) (entries_fts db))"

definition entries_of :: "void_db \<Rightarrow> nat \<Rightarrow> nat" where
  "entries_of db i = length (filter (\<lambda>e. j_id e = i) (entries db))"

text \<open>
  The call that the claim about \<open>void_append_snippet\<close> names: \<open>void_write_entry\<close> with
  title \<open>Snippet\<close>, the text as summary, empty decisions and open loops, the text as
  the one artifact, and the tags given if there are any, else the tag \<open>snippet\<close>.
\<close>

definition snippet_as_entry ::
  "faults \<Rightarrow> string \<Rightarrow> void_db \<Rightarrow> string \<Rightarrow> string list option \<Rightarrow> string option
   \<Rightarrow> string option \<Rightarrow> int \<Rightarrow> (exn + write_result) \<times> void_db" where
  "snippet_as_entry flt now db text tags session_id thread_id importance =
     void_write_entry flt now db ''Snippet'' text (Some []) (Some [])
       (Some [(''snippet'', JString text)])
       (Some (case tags of None \<Rightarrow> [''snippet'']
              | Some ts \<Rightarrow> (case ts of [] \<Rightarrow> [''snippet''] | t # ts' \<Rightarrow> ts)))
       importance session_id thread_id"

section \<open>Example stores\<close>

text \<open>The limits of SQLite as it is built by default.\<close>

definition default_limits :: sqlite_limits where
  "default_limits = \<lparr>like_pattern_length = 50000, variable_number = 32766\<rparr>"

text \<open>The tables as \<open>init_memory_database\<close> creates them in a new file.\<close>

definition empty_memory_db :: memory_db where
  "empty_memory_db = \<lparr>entities = [], observations = [], entities_seq = 0, observations_seq = 0\<rparr>"

text \<open>One entity with one observation, as a first \<open>store_memory\<close> leaves it.\<close>

definition lincoln_db :: memory_db where
  "lincoln_db =
     \<lparr>entities = [\<lparr>e_id = 1, e_name = ''Lincoln'', e_entity_type = ''person'',
                    e_database = ''default'', e_salience = ''active'',
                    e_created_at = ''2026-01-01T09:00:00'', e_updated_at = ''2026-01-01T09:00:00''\<rparr>],
      observations = [\<lparr>o_id = 1, o_entity_id = 1, o_content = ''Likes long walks'',
                        o_added_at = ''2026-01-01T09:00:00''\<rparr>],
      entities_seq = 1, observations_seq = 1\<rparr>"

text \<open>Two entities of the same database.\<close>

definition two_names_db :: memory_db where
  "two_names_db =
     \<lparr>entities = [\<lparr>e_id = 1, e_name = ''Lincoln'', e_entity_type = ''person'',
                    e_database = ''default'', e_salience = ''active'',
                    e_created_at = ''2026-01-01T09:00:00'', e_updated_at = ''2026-01-01T09:00:00''\<rparr>,
                  \<lparr>e_id = 2, e_name = ''Abe'', e_entity_type = ''person'',
                    e_database = ''default'', e_salience = ''active'',
                    e_created_at = ''2026-01-02T09:00:00'', e_updated_at = ''2026-01-02T09:00:00''\<rparr>],
      observations = [\<lparr>o_id = 1, o_entity_id = 1, o_content = ''Likes long walks'',
                        o_added_at = ''2026-01-01T09:00:00''\<rparr>,
                      \<lparr>o_id = 2, o_entity_id = 2, o_content = ''Owns a boat'',
                        o_added_at = ''2026-01-02T09:00:00''\<rparr>],
      entities_seq = 2, observations_seq = 2\<rparr>"

text \<open>Two entities whose observations all mention walking; the newer entity has two.\<close>

definition search_example_db :: memory_db where
  "search_example_db =
     \<lparr>entities = [\<lparr>e_id = 1, e_name = ''Abe'', e_entity_type = ''person'',
                    e_database = ''default'', e_salience = ''active'',
                    e_created_at = ''2026-01-01T09:00:00'', e_updated_at = ''2026-01-01T09:00:00''\<rparr>,
                  \<lparr>e_id = 2, e_name = ''Lincoln'', e_entity_type = ''person'',
                    e_database = ''default'', e_salience = ''active'',
                    e_created_at = ''2026-01-02T09:00:00'', e_updated_at = ''2026-01-04T09:00:00''\<rparr>],
      observations = [\<lparr>o_id = 1, o_entity_id = 1, o_content = ''Walks to work'',
                        o_added_at = ''2026-01-01T09:00:00''\<rparr>,
                      \<lparr>o_id = 2, o_entity_id = 2, o_content = ''Likes long walks'',
                        o_added_at = ''2026-01-02T09:00:00''\<rparr>,
                      \<lparr>o_id = 3, o_entity_id = 2, o_content = ''Walked the dog'',
                        o_added_at = ''2026-01-04T09:00:00''\<rparr>],
      entities_seq = 2, observations_seq = 3\<rparr>"

text \<open>The journal as \<open>init_void_database\<close> creates it in a new file.\<close>

definition empty_void_db :: void_db where
  "empty_void_db = \<lparr>entries = [], entries_fts = [], entries_seq = 0\<rparr>"

text \<open>
  A write, a snippet whose commit fails, a snippet that is kept, and a read.
\<close>

definition journal_example :: "(faults \<times> string \<times> journal_op) list" where
  "journal_example =
     [(no_faults, ''2026-01-01T09:00:00'',
       Write_entry ''Design Review'' ''Discussed X'' (Some []) (Some []) None
         (Some [''design'']) 1 None None),
      (\<lambda>k. if k = 1 then Some (OperationalError ''database is locked'') else None,
       ''2026-01-01T10:00:00'', Append_snippet ''lost'' None None None 1),
      (no_faults, ''2026-01-01T11:00:00'', Append_snippet ''kept'' None None None 1),
      (no_faults, ''2026-01-01T12:00:00'', Get_entry 1)]"

section \<open>The orders that a query allows\<close>

lemma mset_insert_all: "q \<in> set (insert_all x ys) \<Longrightarrow> mset q = add_mset x (mset ys)"
  by (induction ys arbitrary: q) auto

lemma mset_arrangements: "p \<in> set (arrangements xs) \<Longrightarrow> mset p = mset xs"
  by (induction xs arbitrary: p) (auto dest: mset_insert_all)

lemma insert_all_hd: "x # zs \<in> set (insert_all x zs)"
  by (cases zs) simp_all

lemma insert_all_mem: "ys @ x # zs \<in> set (insert_all x (ys @ zs))"
  by (induction ys) (simp_all add: insert_all_hd)

lemma arrangements_complete: "mset p = mset xs \<Longrightarrow> p \<in> set (arrangements xs)"
proof (induction xs arbitrary: p)
  case Nil
  then show ?case by simp
next
  case (Cons x xs)
  from Cons.prems have "x \<in> set p"
    by (metis list.set_intros(1) mset_eq_setD)
  then obtain ys zs where p: "p = ys @ x # zs"
    by (auto dest: split_list)
  with Cons.prems have "mset (ys @ zs) = mset xs"
    by simp
  then have "ys @ zs \<in> set (arrangements xs)"
    by (rule Cons.IH)
  with insert_all_mem [of ys x zs] show ?case
    unfolding p by auto
qed

lemma mset_insort_desc: "mset (insort_desc f x ys) = add_mset x (mset ys)"
  by (induction ys) auto

lemma mset_order_by_desc: "mset (order_by_desc f xs) = mset xs"
  by (induction xs) (auto simp: order_by_desc_def mset_insort_desc)

lemma set_insort_desc: "set (insort_desc f x ys) = insert x (set ys)"
  by (induction ys) auto

lemma sorted_insort_desc:
  "sorted_wrt (\<lambda>a b. f b \<le> f a) ys \<Longrightarrow> sorted_wrt (\<lambda>a b. f b \<le> f a) (insort_desc f x ys)"
  by (induction ys) (auto simp: set_insort_desc)

lemma set_order_by_desc: "set (order_by_desc f xs) = set xs"
  by (induction xs) (auto simp: order_by_desc_def set_insort_desc)

lemma sorted_order_by_desc: "sorted_wrt (\<lambda>a b. f b \<le> f a) (order_by_desc f xs)"
  by (induction xs) (auto simp: order_by_desc_def sorted_insort_desc)

text \<open>
  The orders listed are the arrangements of the rows in which the keys descend, all of
  them, and there is one at least.
\<close>

lemma sql_orders_iff:
  "p \<in> set (sql_orders f xs) \<longleftrightarrow> mset p = mset xs \<and> sorted_wrt (\<lambda>a b. f b \<le> f a) p"
  by (auto simp: sql_orders_def dest: mset_arrangements intro: arrangements_complete)

lemma sql_orders_not_Nil: "sql_orders f xs \<noteq> []"
proof -
  have "order_by_desc f xs \<in> set (sql_orders f xs)"
    by (simp add: sql_orders_iff mset_order_by_desc sorted_order_by_desc)
  then show ?thesis
    by auto
qed

lemma sql_orders_set: "p \<in> set (sql_orders f xs) \<Longrightarrow> set p = set xs"
  by (auto simp: sql_orders_iff dest: mset_eq_setD)

lemma sql_orders_Nil: "sql_orders f [] = [[]]"
  by (simp add: sql_orders_def)

lemma length_sql_limit: "0 \<le> n \<Longrightarrow> length (sql_limit n xs) \<le> nat n"
  by (simp add: sql_limit_def)

lemma set_sql_limit: "set (sql_limit n xs) \<subseteq> set xs"
  by (auto simp: sql_limit_def dest: in_set_takeD)

lemma sorted_sql_limit: "sorted_wrt R xs \<Longrightarrow> sorted_wrt R (sql_limit n xs)"
  by (simp add: sql_limit_def sorted_wrt_take)

section \<open>Properties of store\_memory\<close>

lemma select_entity_None_iff:
  "select_entity db n d = None \<longleftrightarrow> \<not> (\<exists>e \<in> set (entities db). e_name e = n \<and> e_database e = d)"
  by (auto simp: select_entity_def find_None_iff)

lemma select_entity_SomeD:
  "select_entity db n d = Some e \<Longrightarrow> e \<in> set (entities db) \<and> e_name e = n \<and> e_database e = d"
  by (auto simp: select_entity_def find_Some_iff)

lemma insert_entity_fresh:
  "select_entity db n d = None \<Longrightarrow>
   insert_entity db n ty d s c u =
     Inr (next_rowid (entities_seq db) (map e_id (entities db)),
          db\<lparr>entities := entities db @
               [\<lparr>e_id = next_rowid (entities_seq db) (map e_id (entities db)), e_name = n,
                 e_entity_type = ty, e_database = d, e_salience = s, e_created_at = c,
                 e_updated_at = u\<rparr>],
             entities_seq := next_rowid (entities_seq db) (map e_id (entities db))\<rparr>)"
  by (simp add: insert_entity_def select_entity_None_iff Let_def)



lemma entities_insert_observation [simp]:
  "entities (insert_observation db i c t) = entities db"
  by (simp add: insert_observation_def Let_def)

lemma length_observations_insert [simp]:
  "length (observations (insert_observation db i c t)) = Suc (length (observations db))"
  by (simp add: insert_observation_def Let_def)

lemma observations_update_updated_at [simp]:
  "observations (update_updated_at db t i) = observations db"
  by (simp add: update_updated_at_def)

lemma rows_of_update_updated_at [simp]:
  "rows_of (update_updated_at db t i) n d = rows_of db n d"
proof -
  have "length (filter (\<lambda>e. e_name e = n \<and> e_database e = d)
          (map (\<lambda>e. if e_id e = i then e\<lparr>e_updated_at := t\<rparr> else e) xs)) =
        length (filter (\<lambda>e. e_name e = n \<and> e_database e = d) xs)" for xs
    by (induction xs) auto
  then show ?thesis
    unfolding rows_of_def update_updated_at_def by simp
qed

lemma rows_of_insert_observation [simp]:
  "rows_of (insert_observation db i c t) n d = rows_of db n d"
  by (simp add: rows_of_def)



lemma select_entity_insert_observation [simp]:
  "select_entity (insert_observation db i c t) n d = select_entity db n d"
  by (simp add: select_entity_def)








lemma store_memory_try_fault:
  assumes "select_entity db n d = None"
      and "flt 0 \<noteq> None \<or> flt 1 \<noteq> None \<or> flt 2 \<noteq> None \<or> flt 3 \<noteq> None"
  shows "\<exists>ex. store_memory_try flt now db n ob ty d sal = Inl ex"
  using assms
  by (auto simp: store_memory_try_def insert_entity_fresh Let_def split: option.splits)

lemma store_memory_unchanged_or_committed:
  "snd (store_memory flt now db n ob ty d sal) = db \<or>
   (\<exists>e. select_entity db n d = Some e \<and>
      snd (store_memory flt now db n ob ty d sal) =
        update_updated_at (insert_observation db (e_id e) ob now) now (e_id e)) \<or>
   (select_entity db n d = None \<and>
      snd (store_memory flt now db n ob ty d sal) =
        insert_observation
          (db\<lparr>entities := entities db @
               [\<lparr>e_id = next_rowid (entities_seq db) (map e_id (entities db)), e_name = n,
                 e_entity_type = ty, e_database = d, e_salience = sal, e_created_at = now,
                 e_updated_at = now\<rparr>],
             entities_seq := next_rowid (entities_seq db) (map e_id (entities db))\<rparr>)
          (next_rowid (entities_seq db) (map e_id (entities db))) ob now)"
proof (cases "select_entity db n d")
  case None
  then show ?thesis
    by (simp add: store_memory_def store_memory_try_def insert_entity_fresh Let_def
        split: option.splits)
next
  case (Some e)
  then show ?thesis
    by (simp add: store_memory_def store_memory_try_def Let_def split: option.splits)
qed

lemma all_observed_updated:
  "all_observed db \<Longrightarrow> all_observed (update_updated_at (insert_observation db i c t) t' j)"
  by (auto simp: all_observed_def update_updated_at_def insert_observation_def Let_def
      list_all_iff list_ex_iff)

lemma all_observed_created:
  "all_observed db \<Longrightarrow>
   all_observed (insert_observation (db\<lparr>entities := entities db @ [e], entities_seq := k\<rparr>)
     (e_id e) c t)"
  by (auto simp: all_observed_def insert_observation_def Let_def list_all_iff list_ex_iff)

text \<open>
  Claim C6. On a name and database not seen before, a failure of any statement of
  \<open>store_memory\<close> (the lookup, the entity insert, the observation insert or the commit)
  leaves the store as it was and is answered by the failure dictionary; and no call
  leaves an entity row without an observation row behind.
\<close>

theorem store_memory_atomic:
  assumes "select_entity db n d = None"
  shows "(flt 0 \<noteq> None \<or> flt 1 \<noteq> None \<or> flt 2 \<noteq> None \<or> flt 3 \<noteq> None \<longrightarrow>
            snd (store_memory flt now db n ob ty d sal) = db \<and>
            (\<exists>m. fst (store_memory flt now db n ob ty d sal) = Inr (StoreFailure m))) \<and>
         (all_observed db \<longrightarrow> all_observed (snd (store_memory flt now db n ob ty d sal)))"
proof (intro conjI impI)
  assume "flt 0 \<noteq> None \<or> flt 1 \<noteq> None \<or> flt 2 \<noteq> None \<or> flt 3 \<noteq> None"
  from store_memory_try_fault [OF assms this]
  obtain ex where "store_memory_try flt now db n ob ty d sal = Inl ex"
    by blast
  then show "snd (store_memory flt now db n ob ty d sal) = db"
    and "\<exists>m. fst (store_memory flt now db n ob ty d sal) = Inr (StoreFailure m)"
    by (simp_all add: store_memory_def)
next
  assume obs: "all_observed db"
  let ?e = "\<lparr>e_id = next_rowid (entities_seq db) (map e_id (entities db)), e_name = n,
             e_entity_type = ty, e_database = d, e_salience = sal, e_created_at = now,
             e_updated_at = now\<rparr>"
  from store_memory_unchanged_or_committed [of flt now db n ob ty d sal] assms
  consider "snd (store_memory flt now db n ob ty d sal) = db"
    | "snd (store_memory flt now db n ob ty d sal) =
        insert_observation (db\<lparr>entities := entities db @ [?e],
          entities_seq := next_rowid (entities_seq db) (map e_id (entities db))\<rparr>)
          (next_rowid (entities_seq db) (map e_id (entities db))) ob now"
    by auto
  then show "all_observed (snd (store_memory flt now db n ob ty d sal))"
  proof cases
    case 1
    then show ?thesis using obs by simp
  next
    case 2
    from all_observed_created [OF obs, where e = ?e and c = ob and t = now] show ?thesis
      by (simp add: 2)
  qed
qed


theorem store_memory_atomic_witness:
  "snd (store_memory (\<lambda>k. if k = 2 then Some (OperationalError ''disk I/O error'') else None)
          ''2026-01-01T09:00:00'' empty_memory_db ''Lincoln'' ''Likes long walks''
          ''person'' ''default'' ''active'') = empty_memory_db \<and>
   all_observed (snd (store_memory (\<lambda>k. if k = 2 then Some (OperationalError ''disk I/O error'') else None)
          ''2026-01-01T09:00:00'' empty_memory_db ''Lincoln'' ''Likes long walks''
          ''person'' ''default'' ''active''))"
proof -
  have h: "select_entity empty_memory_db ''Lincoln'' ''default'' = None"
    by (simp add: select_entity_def empty_memory_db_def)
  have o: "all_observed empty_memory_db"
    by (simp add: all_observed_def empty_memory_db_def)
  show ?thesis
    using store_memory_atomic [OF h,
        of "\<lambda>k. if k = 2 then Some (OperationalError ''disk I/O error'') else None"
           "''2026-01-01T09:00:00''" "''Likes long walks''" "''person''" "''active''"] o
    by simp
qed

section \<open>Properties of update\_entity\<close>

lemma foldl_set_columns:
  "foldl set_column r (updates_of nn nt ns @ [(Updated_at, now)]) =
     r\<lparr>e_name := (if truthy nn then the nn else e_name r),
       e_entity_type := (if truthy nt then the nt else e_entity_type r),
       e_salience := (if truthy ns then the ns else e_salience r),
       e_updated_at := now\<rparr>"
  by (simp add: updates_of_def)

lemma updates_of_Nil_iff:
  "updates_of nn nt ns = [] \<longleftrightarrow> \<not> truthy nn \<and> \<not> truthy nt \<and> \<not> truthy ns"
  by (simp add: updates_of_def)

lemma update_entities_InrD:
  "update_entities db sets i = Inr db1 \<Longrightarrow>
   db1 = db\<lparr>entities := map (\<lambda>r. if e_id r = i then foldl set_column r sets else r) (entities db)\<rparr>"
  by (simp add: update_entities_def Let_def split: if_splits)

lemma update_entity_success:
  assumes "fst (update_entity flt now db n d nn nt ns) = Inr (UpdateSuccess msg)"
  shows "\<exists>e. select_entity db n d = Some e \<and>
           (truthy nn \<or> truthy nt \<or> truthy ns) \<and>
           snd (update_entity flt now db n d nn nt ns) =
             db\<lparr>entities := map (\<lambda>r. if e_id r = e_id e
                  then foldl set_column r (updates_of nn nt ns @ [(Updated_at, now)]) else r)
                  (entities db)\<rparr>"
proof (cases "select_entity db n d")
  case None
  with assms show ?thesis
    by (simp add: update_entity_def split: option.splits)
next
  case (Some e)
  show ?thesis
  proof (cases "update_entities db (updates_of nn nt ns @ [(Updated_at, now)]) (e_id e)")
    case (Inl ex)
    with assms Some show ?thesis
      by (simp add: update_entity_def Let_def split: option.splits if_splits)
  next
    case (Inr db1)
    from update_entities_InrD [OF Inr] assms Some Inr show ?thesis
      by (simp add: update_entity_def Let_def updates_of_Nil_iff split: option.splits if_splits)
  qed
qed

text \<open>
  Claim C7. \<open>update_entity\<close> on a name and database without a row answers the
  not-found failure and leaves the store as it was; with no field given (each of
  \<open>new_name\<close>, \<open>new_type\<close>, \<open>new_salience\<close> is \<open>None\<close> or empty, which is how the
  code reads "not given") it answers a failure and leaves the store as it was; and
  whenever it answers success, the row of the entity has exactly the given fields
  replaced and \<open>updated_at\<close> set to the time of the call, every other row and every
  observation being as before.
\<close>

theorem update_entity_contract:
  "(select_entity db n d = None \<longrightarrow>
      update_entity no_faults now db n d nn nt ns =
        (Inr (UpdateFailure (''Entity '' @ quoted n @ '' not found'')), db)) \<and>
   (\<not> truthy nn \<and> \<not> truthy nt \<and> \<not> truthy ns \<longrightarrow>
      update_entity no_faults now db n d nn nt ns =
        (Inr (UpdateFailure (if select_entity db n d = None
                             then ''Entity '' @ quoted n @ '' not found''
                             else ''No updates specified'')), db)) \<and>
   (\<forall>msg. fst (update_entity flt now db n d nn nt ns) = Inr (UpdateSuccess msg) \<longrightarrow>
      (\<exists>e. select_entity db n d = Some e \<and>
         entities (snd (update_entity flt now db n d nn nt ns)) =
           map (\<lambda>r. if e_id r = e_id e
                     then r\<lparr>e_name := (if truthy nn then the nn else e_name r),
                            e_entity_type := (if truthy nt then the nt else e_entity_type r),
                            e_salience := (if truthy ns then the ns else e_salience r),
                            e_updated_at := now\<rparr>
                     else r) (entities db) \<and>
         observations (snd (update_entity flt now db n d nn nt ns)) = observations db))"
proof (intro conjI impI allI)
  assume "select_entity db n d = None"
  then show "update_entity no_faults now db n d nn nt ns =
      (Inr (UpdateFailure (''Entity '' @ quoted n @ '' not found'')), db)"
    by (simp add: update_entity_def no_faults_def)
next
  assume "\<not> truthy nn \<and> \<not> truthy nt \<and> \<not> truthy ns"
  then have "updates_of nn nt ns = []"
    by (simp add: updates_of_Nil_iff)
  then show "update_entity no_faults now db n d nn nt ns =
      (Inr (UpdateFailure (if select_entity db n d = None
                           then ''Entity '' @ quoted n @ '' not found''
                           else ''No updates specified'')), db)"
    by (simp add: update_entity_def no_faults_def split: option.splits)
next
  fix msg
  assume "fst (update_entity flt now db n d nn nt ns) = Inr (UpdateSuccess msg)"
  from update_entity_success [OF this, unfolded foldl_set_columns]
  show "\<exists>e. select_entity db n d = Some e \<and>
         entities (snd (update_entity flt now db n d nn nt ns)) =
           map (\<lambda>r. if e_id r = e_id e
                     then r\<lparr>e_name := (if truthy nn then the nn else e_name r),
                            e_entity_type := (if truthy nt then the nt else e_entity_type r),
                            e_salience := (if truthy ns then the ns else e_salience r),
                            e_updated_at := now\<rparr>
                     else r) (entities db) \<and>
         observations (snd (update_entity flt now db n d nn nt ns)) = observations db"
    by auto
qed

theorem update_entity_contract_witness:
  "update_entity no_faults ''2026-01-03T09:00:00'' lincoln_db ''Nobody'' ''default''
      (Some ''Abe'') None None =
     (Inr (UpdateFailure (''Entity '' @ quoted ''Nobody'' @ '' not found'')), lincoln_db) \<and>
   update_entity no_faults ''2026-01-03T09:00:00'' lincoln_db ''Lincoln'' ''default''
      None (Some []) None =
     (Inr (UpdateFailure ''No updates specified''), lincoln_db) \<and>
   fst (update_entity no_faults ''2026-01-03T09:00:00'' lincoln_db ''Lincoln'' ''default''
      None None (Some ''foundational'')) =
     Inr (UpdateSuccess (''Entity '' @ quoted ''Lincoln'' @ '' updated successfully'')) \<and>
   entities (snd (update_entity no_faults ''2026-01-03T09:00:00'' lincoln_db ''Lincoln''
      ''default'' None None (Some ''foundational''))) =
     [\<lparr>e_id = 1, e_name = ''Lincoln'', e_entity_type = ''person'', e_database = ''default'',
       e_salience = ''foundational'', e_created_at = ''2026-01-01T09:00:00'',
       e_updated_at = ''2026-01-03T09:00:00''\<rparr>]"
proof -
  have a: "select_entity lincoln_db ''Nobody'' ''default'' = None"
    by (simp add: select_entity_def lincoln_db_def)
  have b: "select_entity lincoln_db ''Lincoln'' ''default'' = Some (hd (entities lincoln_db))"
    by (simp add: select_entity_def lincoln_db_def)
  have c: "fst (update_entity no_faults ''2026-01-03T09:00:00'' lincoln_db ''Lincoln'' ''default''
      None None (Some ''foundational'')) =
     Inr (UpdateSuccess (''Entity '' @ quoted ''Lincoln'' @ '' updated successfully''))"
    by (simp add: update_entity_def b no_faults_def updates_of_def update_entities_def Let_def)
       (simp add: lincoln_db_def)
  show ?thesis
    using update_entity_contract [of lincoln_db "''Nobody''" "''default''"
        "''2026-01-03T09:00:00''" "Some ''Abe''" None None no_faults]
      update_entity_contract [of lincoln_db "''Lincoln''" "''default''"
        "''2026-01-03T09:00:00''" None "Some []" None no_faults]
      update_entity_contract [of lincoln_db "''Lincoln''" "''default''"
        "''2026-01-03T09:00:00''" None None "Some ''foundational''" no_faults]
      a b c
    by (simp add: lincoln_db_def)
qed

section \<open>Exceptions that reach the caller\<close>

text \<open>
  Claim C2. The claim is that no operation lets an exception of the storage layer
  reach its caller. \<open>store_memory\<close> has an \<open>except\<close> clause and keeps the promise; the
  other operations have \<open>try ... finally\<close> only. Renaming an entity to the name of
  another entity of the same database violates \<open>UNIQUE(name, database)\<close>, and
  \<open>update_entity\<close> lets the IntegrityError out; \<open>retrieve_memory\<close> lets out the error
  of a statement that fails; \<open>store_memory\<close> turns the same error into a failure
  dictionary.
\<close>

theorem update_entity_raises:
  "update_entity no_faults ''2026-01-03T09:00:00'' two_names_db ''Abe'' ''default''
      (Some ''Lincoln'') None None = (Inl unique_failed, two_names_db) \<and>
   retrieve_memory (\<lambda>k. if k = 0 then Some (OperationalError ''database is locked'') else None)
      two_names_db ''Abe'' ''default'' = Inl (OperationalError ''database is locked'') \<and>
   store_memory (\<lambda>k. if k = 0 then Some (OperationalError ''database is locked'') else None)
      ''2026-01-03T09:00:00'' two_names_db ''Abe'' ''Sails'' ''person'' ''default'' ''active'' =
     (Inr (StoreFailure ''database is locked''), two_names_db)"
  by (simp add: update_entity_def retrieve_memory_def store_memory_def store_memory_try_def
      no_faults_def select_entity_def two_names_db_def updates_of_def update_entities_def
      Let_def)

section \<open>The length of the context block\<close>

lemma length_truncation_marker: "length truncation_marker = 38"
  by (simp add: truncation_marker_def newline_def)

lemma enforce_length_bound:
  assumes "50 \<le> N"
  shows "int (length (enforce_length r N)) \<le> N"
  using assms
  by (auto simp: enforce_length_def slice_to_def length_truncation_marker)

lemma enforce_length_truncated:
  assumes "50 \<le> N" and "N < int (length r)"
  shows "enforce_length r N = take (nat (N - 50)) r @ truncation_marker"
    and "int (length (enforce_length r N)) = N - 12"
  using assms
  by (auto simp: enforce_length_def slice_to_def length_truncation_marker)

lemma enforce_length_below_50:
  assumes "N < 50" and "N < int (length r)"
  shows "enforce_length r N = take (length r - nat (50 - N)) r @ truncation_marker"
  using assms by (simp add: enforce_length_def slice_to_def)

text \<open>
  Whatever the call returns is the text assembled from rows that the two queries may
  fetch, with its length enforced.
\<close>

lemma get_context_block_outcomes:
  assumes "out \<in> set (get_context_block lim flt now cutoff db N dbs)"
  shows "(\<exists>ex. out = Inl ex) \<or>
         (\<exists>foundational \<in> set (foundational_fetches db dbs).
            \<exists>recent \<in> set (recent_fetches db cutoff dbs).
              out = Inr (enforce_length (assemble now foundational recent) N))"
  using assms
  by (auto simp: get_context_block_def split: option.splits if_splits)

text \<open>
  From 50 characters on, the length is kept: a string returned has at most
  \<open>max_length\<close> characters.
\<close>

lemma get_context_block_from_50:
  assumes "50 \<le> N" and "Inr s \<in> set (get_context_block lim flt now cutoff db N dbs)"
  shows "int (length s) \<le> N"
  using get_context_block_outcomes [OF assms(2)] enforce_length_bound [OF assms(1)]
  by auto

text \<open>
  Claim C3. The claim is that the string returned has at most \<open>max_length\<close>
  characters, whatever \<open>max_length\<close> is, and the docstring of the function calls
  \<open>max_length\<close> the maximum character length of the block. The code cuts a longer text
  with \<open>result[:max_length - 50]\<close>, and below 50 the bound of that slice is negative:
  the slice then drops the last \<open>50 - max_length\<close> characters of the text instead of
  keeping its first ones, and the marker is appended to what is left. On an empty
  store the text assembled has 90 characters; with \<open>max_length = 0\<close> the call returns
  78 characters, and with \<open>max_length = 49\<close> it returns 127.
\<close>

theorem get_context_block_small_max_length:
  "get_context_block default_limits no_faults ''2026-11-04T10:02:00.000000''
     ''2026-11-02T10:02:00.000000'' empty_memory_db 0 None =
     [Inr (''[COMPANION MEMORY CONTEXT]'' @ newline @ ''Last updated:'' @ truncation_marker)] \<and>
   length (''[COMPANION MEMORY CONTEXT]'' @ newline @ ''Last updated:'' @ truncation_marker) = 78 \<and>
   get_context_block default_limits no_faults ''2026-11-04T10:02:00.000000''
     ''2026-11-02T10:02:00.000000'' empty_memory_db 49 None =
     [Inr (''[COMPANION MEMORY CONTEXT]'' @ newline @
           ''Last updated: 2026-11-04T10:02:00.000000'' @ newline @ newline @
           ''[END MEMORY CONTEXT]'' @ truncation_marker)] \<and>
   length (''[COMPANION MEMORY CONTEXT]'' @ newline @
           ''Last updated: 2026-11-04T10:02:00.000000'' @ newline @ newline @
           ''[END MEMORY CONTEXT]'' @ truncation_marker) = 127"
  by (simp add: get_context_block_def no_faults_def foundational_fetches_def
      recent_fetches_def left_join_def inner_join_def empty_memory_db_def sql_orders_Nil
      sql_limit_def default_limits_def or_else_def
      assemble_def core_knowledge_def recent_activity_def enforce_length_def slice_to_def
      truncation_marker_def newline_def)

section \<open>The grouping and the limit of search\_memories\<close>

lemma fst_join_rows:
  "fst ` set (case xs of [] \<Rightarrow> [(e, None)] | ob # obs \<Rightarrow> map (\<lambda>ob. (e, Some ob)) (ob # obs)) = {e}"
  by (cases xs) auto

lemma fst_left_join: "r \<in> set (left_join db) \<Longrightarrow> fst r \<in> set (entities db)"
proof -
  assume "r \<in> set (left_join db)"
  then obtain e where e: "e \<in> set (entities db)"
    and r: "r \<in> set (case filter (\<lambda>ob. o_entity_id ob = e_id e) (observations db) of
                        [] \<Rightarrow> [(e, None)] | ob # obs \<Rightarrow> map (\<lambda>ob. (e, Some ob)) (ob # obs))"
    by (auto simp: left_join_def)
  from r fst_join_rows [where xs = "filter (\<lambda>ob. o_entity_id ob = e_id e) (observations db)"
      and e = e]
  have "fst r = e"
    by blast
  with e show ?thesis
    by simp
qed

lemma search_fetches_shape:
  assumes "rows \<in> set (search_fetches db p dbs n)"
  shows "\<exists>full. rows = sql_limit n full \<and>
           sorted_wrt (\<lambda>a b. e_updated_at (fst b) \<le> e_updated_at (fst a)) full \<and>
           fst ` set full \<subseteq> set (entities db)"
proof -
  let ?key = "\<lambda>(e, co). e_updated_at e :: string"
  from assms obtain full :: "search_row list"
    where full: "full \<in> set (sql_orders ?key (search_candidates db p dbs))"
      and rows: "rows = sql_limit n full"
    by (auto simp: search_fetches_def)
  from full have "sorted_wrt (\<lambda>a b. ?key b \<le> ?key a) full"
    by (simp add: sql_orders_iff)
  then have "sorted_wrt (\<lambda>a b. e_updated_at (fst b) \<le> e_updated_at (fst a)) full"
    by (simp add: case_prod_beta)
  moreover have "fst ` set full \<subseteq> set (entities db)"
    unfolding sql_orders_set [OF full]
    by (auto simp: search_candidates_def dest: fst_left_join)
  ultimately show ?thesis
    using rows by blast
qed

lemma fst_search_fetches:
  assumes "rows \<in> set (search_fetches db p dbs n)" and "r \<in> set rows"
  shows "fst r \<in> set (entities db)"
proof -
  from search_fetches_shape [OF assms(1)] obtain full
    where "rows = sql_limit n full" and "fst ` set full \<subseteq> set (entities db)"
    by blast
  with assms(2) set_sql_limit [of n full] show ?thesis
    by auto
qed

lemma sorted_search_fetches:
  assumes "rows \<in> set (search_fetches db p dbs n)"
  shows "sorted_wrt (\<lambda>a b. e_updated_at (fst b) \<le> e_updated_at (fst a)) rows"
proof -
  from search_fetches_shape [OF assms] obtain full
    where "rows = sql_limit n full"
      and "sorted_wrt (\<lambda>a b. e_updated_at (fst b) \<le> e_updated_at (fst a)) full"
    by blast
  then show ?thesis
    by (simp add: sorted_sql_limit)
qed

lemma length_search_fetches:
  assumes "rows \<in> set (search_fetches db p dbs n)" and "0 \<le> n"
  shows "length rows \<le> nat n"
proof -
  from search_fetches_shape [OF assms(1)] obtain full where "rows = sql_limit n full"
    by blast
  with length_sql_limit [OF assms(2)] show ?thesis
    by simp
qed

lemma search_fetches_not_Nil: "search_fetches db p dbs n \<noteq> []"
  by (simp add: search_fetches_def sql_orders_not_Nil)

lemma search_error_None:
  assumes "3 + length (or_else dbs []) \<le> variable_number lim" and "fits_int64 limit"
    and "utf8_length p \<le> like_pattern_length lim"
  shows "search_error lim db p dbs limit = None"
  using assms by (simp add: search_error_def)

lemma updated_of_entity:
  assumes "distinct (map e_id (entities db))" and "e \<in> set (entities db)"
  shows "updated_of db (e_id e) = e_updated_at e"
proof -
  have "find (\<lambda>r. e_id r = e_id e) xs = Some e" if "distinct (map e_id xs)" "e \<in> set xs" for xs
    using that by (induction xs) (auto simp: image_iff)
  from this [OF assms] show ?thesis
    by (simp add: updated_of_def)
qed

lemma keys_add_row:
  "map fst (add_row m row) =
     (if e_id (fst row) \<in> set (map fst m) then map fst m else map fst m @ [e_id (fst row)])"
proof -
  have "map fst (map (\<lambda>(k, v). if k = i then (k, g v) else (k, v)) xs) = map fst xs"
    for i and g :: "search_entry \<Rightarrow> search_entry" and xs :: "(nat \<times> search_entry) list"
    by (induction xs) auto
  then show ?thesis
    by (auto simp: add_row_def Let_def split: option.splits)
qed

lemma entities_map_snoc: "entities_map (rows @ [r]) = add_row (entities_map rows) r"
  by (simp add: entities_map_def)

lemma keys_entities_map_set:
  "set (map fst (entities_map rows)) = (\<lambda>r. e_id (fst r)) ` set rows"
  by (induction rows rule: rev_induct)
     (auto simp: entities_map_snoc keys_add_row entities_map_def)

lemma distinct_entities_map: "distinct (map fst (entities_map rows))"
  by (induction rows rule: rev_induct)
     (auto simp: entities_map_snoc keys_add_row entities_map_def)

lemma length_entities_map: "length (entities_map rows) \<le> length rows"
proof (induction rows rule: rev_induct)
  case Nil
  then show ?case by (simp add: entities_map_def)
next
  case (snoc r rows)
  have "length (add_row m r) \<le> Suc (length m)" for m
    using arg_cong [OF keys_add_row [of m r], of length] by (simp split: if_splits)
  from this [of "entities_map rows"] snoc show ?case
    by (simp add: entities_map_snoc)
qed

lemma sorted_entities_map:
  assumes "sorted_wrt (\<lambda>a b. R (e_id (fst a)) (e_id (fst b))) rows"
  shows "sorted_wrt R (map fst (entities_map rows))"
  using assms
proof (induction rows rule: rev_induct)
  case Nil
  then show ?case by (simp add: entities_map_def)
next
  case (snoc r rows)
  from snoc.prems have rows: "sorted_wrt (\<lambda>a b. R (e_id (fst a)) (e_id (fst b))) rows"
    and last: "\<forall>a \<in> set rows. R (e_id (fst a)) (e_id (fst r))"
    by (auto simp: sorted_wrt_append)
  from last have "\<forall>k \<in> set (map fst (entities_map rows)). R k (e_id (fst r))"
    unfolding keys_entities_map_set by auto
  with snoc.IH [OF rows] show ?case
    by (simp add: entities_map_snoc keys_add_row sorted_wrt_append)
qed

lemma fetched_observations_snoc:
  "fetched_observations k (rows @ [r]) =
     fetched_observations k rows @
       (if e_id (fst r) = k
        then (case snd r of None \<Rightarrow> [] | Some (c, a) \<Rightarrow> if c = [] then [] else [(c, a)])
        else [])"
  by (simp add: fetched_observations_def)

lemma fetched_observations_absent:
  "k \<notin> (\<lambda>r. e_id (fst r)) ` set rows \<Longrightarrow> fetched_observations k rows = []"
  by (induction rows) (auto simp: fetched_observations_def)

lemma in_map_update:
  "(k, v) \<in> set (map (\<lambda>(k', v'). if k' = i then (k', g v') else (k', v')) xs) \<Longrightarrow>
   \<exists>v0. (k, v0) \<in> set xs \<and> v = (if k = i then g v0 else v0)"
  by (induction xs) (auto split: if_splits)

lemma observations_entities_map:
  "(k, v) \<in> set (entities_map rows) \<Longrightarrow> s_observations v = fetched_observations k rows"
proof (induction rows arbitrary: k v rule: rev_induct)
  case Nil
  then show ?case by (simp add: entities_map_def)
next
  case (snoc r rows)
  let ?m = "entities_map rows"
  let ?new = "(e_id (fst r), \<lparr>s_name = e_name (fst r), s_type = e_entity_type (fst r),
      s_database = e_database (fst r), s_salience = e_salience (fst r), s_observations = []\<rparr>)"
  let ?m1 = "if e_id (fst r) \<in> fst ` set ?m then ?m else ?m @ [?new]"
  have m1: "s_observations v' = fetched_observations k' rows" if "(k', v') \<in> set ?m1" for k' v'
  proof (cases "(k', v') \<in> set ?m")
    case True
    then show ?thesis by (rule snoc.IH)
  next
    case False
    with that have new: "(k', v') = ?new" and "e_id (fst r) \<notin> fst ` set ?m"
      by (auto split: if_splits)
    then have "k' \<notin> (\<lambda>r. e_id (fst r)) ` set rows"
      using keys_entities_map_set [of rows] by auto
    from fetched_observations_absent [OF this] new show ?thesis
      by auto
  qed
  from snoc.prems have in_add: "(k, v) \<in> set (add_row ?m r)"
    by (simp add: entities_map_snoc)
  show ?case
  proof (cases "snd r")
    case None
    with in_add have "(k, v) \<in> set ?m1"
      by (simp add: add_row_def Let_def)
    from m1 [OF this] None show ?thesis
      by (simp add: fetched_observations_snoc)
  next
    case (Some ca)
    obtain c a where ca: "ca = (c, a)"
      by (cases ca) auto
    show ?thesis
    proof (cases "c = []")
      case True
      with in_add Some ca have "(k, v) \<in> set ?m1"
        by (simp add: add_row_def Let_def)
      from m1 [OF this] Some ca True show ?thesis
        by (simp add: fetched_observations_snoc)
    next
      case False
      with Some ca have "add_row ?m r =
          map (\<lambda>(k', v'). if k' = e_id (fst r)
                 then (k', v'\<lparr>s_observations := s_observations v' @ [(c, a)]\<rparr>)
                 else (k', v')) ?m1"
        by (simp add: add_row_def Let_def)
      with in_add in_map_update [of k v "e_id (fst r)"
          "\<lambda>v'. v'\<lparr>s_observations := s_observations v' @ [(c, a)]\<rparr>" ?m1]
      obtain v0 where v0: "(k, v0) \<in> set ?m1"
        and v: "v = (if k = e_id (fst r)
                     then v0\<lparr>s_observations := s_observations v0 @ [(c, a)]\<rparr> else v0)"
        by auto
      from m1 [OF v0] v Some ca False show ?thesis
        by (auto simp: fetched_observations_snoc)
    qed
  qed
qed

lemma remdups_map_const: "remdups (map (\<lambda>x. c) xs) = (if xs = [] then [] else [c])"
  by (induction xs) (auto simp: image_constant_conv)

lemma sql_limit_0: "sql_limit 0 = (\<lambda>xs. [])"
  by (rule ext) (simp add: sql_limit_def)

lemma search_fetches_limit_0: "search_fetches db p dbs 0 = [[]]"
  by (simp add: search_fetches_def sql_limit_0 remdups_map_const sql_orders_not_Nil)

text \<open>
  What the statement refuses, with SQLite as it is built by default: a limit outside
  64 bits, a parameter more than it takes, and a pattern of 50001 bytes when a row is
  read. With limit 0 no row is read, and the same pattern passes.
\<close>

lemma search_memories_refuses:
  "search_memories default_limits no_faults search_example_db ''walk'' None (2 ^ 63) =
     [Inl int_too_large]"
  "search_memories default_limits no_faults search_example_db ''walk''
     (Some (replicate 32764 ''default'')) 10 = [Inl too_many_variables]"
  "search_memories default_limits no_faults search_example_db (replicate 49999 (CHR ''x''))
     None 10 = [Inl pattern_too_complex]"
  "search_memories default_limits no_faults search_example_db (replicate 49999 (CHR ''x''))
     None 0 = [Inr (SearchSuccess (replicate 49999 (CHR ''x'')) 0 [])]"
  by (simp_all add: search_memories_def no_faults_def search_error_def default_limits_def
      fits_int64_def or_else_def utf8_length_def search_example_db_def
      search_fetches_limit_0 search_success_def entities_map_def db_filter_def Let_def)

text \<open>
  Claim C1, as amended. On a store whose entity ids are distinct: when the statement
  has no more parameters than SQLite takes, the limit fits 64 bits and the pattern is
  no longer than LIKE takes, \<open>search_memories\<close> returns a result, built from rows that
  the query may fetch; whatever the arguments, it returns such a result or raises; and
  every such result holds each entity at most once, in the order of \<open>updated_at\<close>
  descending, each with the observations of its fetched rows attached in the order
  fetched. The limit caps the rows fetched from the join, so at most \<open>limit\<close> entities
  are returned (for a limit that is not negative), and fewer when entities among the
  first rows have several rows.
\<close>

theorem search_memories_grouped:
  assumes "distinct (map e_id (entities db))"
  shows "(3 + length (or_else dbs []) \<le> variable_number lim \<and> fits_int64 limit \<and>
          utf8_length (''%'' @ q @ ''%'') \<le> like_pattern_length lim \<longrightarrow>
            search_memories lim no_faults db q dbs limit =
              remdups (map (\<lambda>rows. Inr (search_success q rows))
                           (search_fetches db (''%'' @ q @ ''%'') dbs limit)) \<and>
            search_memories lim no_faults db q dbs limit \<noteq> []) \<and>
         (\<forall>out \<in> set (search_memories lim flt db q dbs limit).
            (\<exists>ex. out = Inl ex) \<or>
            (\<exists>rows \<in> set (search_fetches db (''%'' @ q @ ''%'') dbs limit).
               out = Inr (search_success q rows))) \<and>
         (\<forall>rows \<in> set (search_fetches db (''%'' @ q @ ''%'') dbs limit).
            search_success q rows =
              SearchSuccess q (length (entities_map rows)) (map snd (entities_map rows)) \<and>
            distinct (map fst (entities_map rows)) \<and>
            sorted_wrt (\<lambda>i j. updated_of db j \<le> updated_of db i) (map fst (entities_map rows)) \<and>
            (0 \<le> limit \<longrightarrow> length (entities_map rows) \<le> nat limit) \<and>
            (\<forall>(k, v) \<in> set (entities_map rows).
               s_observations v = fetched_observations k rows))"
proof -
  let ?p = "''%'' @ q @ ''%''"
  have a: "search_memories lim no_faults db q dbs limit =
             remdups (map (\<lambda>rows. Inr (search_success q rows)) (search_fetches db ?p dbs limit)) \<and>
           search_memories lim no_faults db q dbs limit \<noteq> []"
    if "3 + length (or_else dbs []) \<le> variable_number lim \<and> fits_int64 limit \<and>
        utf8_length ?p \<le> like_pattern_length lim"
  proof -
    from that have "search_error lim db ?p dbs limit = None"
      by (intro search_error_None) simp_all
    then have eq: "search_memories lim no_faults db q dbs limit =
        remdups (map (\<lambda>rows. Inr (search_success q rows)) (search_fetches db ?p dbs limit))"
      by (simp add: search_memories_def no_faults_def Let_def)
    then show ?thesis
      by (simp add: search_fetches_not_Nil)
  qed
  have b: "(\<exists>ex. out = Inl ex) \<or>
      (\<exists>rows \<in> set (search_fetches db ?p dbs limit). out = Inr (search_success q rows))"
    if "out \<in> set (search_memories lim flt db q dbs limit)" for out
    using that by (auto simp: search_memories_def Let_def split: option.splits)
  have c: "search_success q rows =
             SearchSuccess q (length (entities_map rows)) (map snd (entities_map rows)) \<and>
           distinct (map fst (entities_map rows)) \<and>
           sorted_wrt (\<lambda>i j. updated_of db j \<le> updated_of db i) (map fst (entities_map rows)) \<and>
           (0 \<le> limit \<longrightarrow> length (entities_map rows) \<le> nat limit) \<and>
           (\<forall>(k, v) \<in> set (entities_map rows). s_observations v = fetched_observations k rows)"
    if rows: "rows \<in> set (search_fetches db ?p dbs limit)" for rows
  proof (intro conjI impI)
    show "search_success q rows =
        SearchSuccess q (length (entities_map rows)) (map snd (entities_map rows))"
      by (simp add: search_success_def Let_def)
    show "distinct (map fst (entities_map rows))"
      by (rule distinct_entities_map)
    have "sorted_wrt (\<lambda>a b. updated_of db (e_id (fst b)) \<le> updated_of db (e_id (fst a))) rows"
      using sorted_search_fetches [OF rows]
      by (rule sorted_wrt_mono_rel [rotated])
         (simp add: updated_of_entity [OF assms] fst_search_fetches [OF rows])
    then show "sorted_wrt (\<lambda>i j. updated_of db j \<le> updated_of db i)
        (map fst (entities_map rows))"
      by (rule sorted_entities_map)
    show "length (entities_map rows) \<le> nat limit" if "0 \<le> limit"
      using length_entities_map [of rows] length_search_fetches [OF rows that] by simp
    show "\<forall>(k, v) \<in> set (entities_map rows). s_observations v = fetched_observations k rows"
      by (auto dest: observations_entities_map)
  qed
  from a b c show ?thesis
    by blast
qed

theorem search_memories_grouped_witness:
  "search_memories default_limits no_faults search_example_db ''walk'' None 2 \<noteq> [] \<and>
   list_all (\<lambda>out. case out of Inl ex \<Rightarrow> False
                    | Inr r \<Rightarrow> list_ex (\<lambda>rows. r = search_success ''walk'' rows)
                               (search_fetches search_example_db ''%walk%'' None 2))
     (search_memories default_limits no_faults search_example_db ''walk'' None 2) \<and>
   list_all (\<lambda>rows. distinct (map fst (entities_map rows)) \<and> length (entities_map rows) \<le> 2)
     (search_fetches search_example_db ''%walk%'' None 2)"
proof -
  have h: "distinct (map e_id (entities search_example_db))"
    by (simp add: search_example_db_def)
  have l: "3 + length (or_else None ([] :: string list)) \<le> variable_number default_limits"
    "fits_int64 2" "utf8_length (''%'' @ ''walk'' @ ''%'') \<le> like_pattern_length default_limits"
    by (simp_all add: or_else_def default_limits_def fits_int64_def utf8_length_def)
  from search_memories_grouped [OF h, of None default_limits 2 "''walk''" no_faults] l
  show ?thesis
    by (auto simp: list_all_iff list_ex_iff)
qed

text \<open>
  Claim C1 as stated fails: it asks for exactly \<open>limit\<close> entities whenever that many
  match. In the example store both entities match \<open>walk\<close>, as the search with limit 10
  shows; with limit 2 the two rows fetched are both of the newer entity, and one entity
  is returned. The two results of each search differ in the order of the two
  observations of that entity, which the query leaves open.
\<close>

theorem search_memories_limit_counts_rows:
  "search_memories default_limits no_faults search_example_db ''walk'' None 10 =
     [Inr (SearchSuccess ''walk'' 2
        [\<lparr>s_name = ''Lincoln'', s_type = ''person'', s_database = ''default'',
          s_salience = ''active'',
          s_observations = [(''Likes long walks'', ''2026-01-02T09:00:00''),
                            (''Walked the dog'', ''2026-01-04T09:00:00'')]\<rparr>,
         \<lparr>s_name = ''Abe'', s_type = ''person'', s_database = ''default'',
          s_salience = ''active'',
          s_observations = [(''Walks to work'', ''2026-01-01T09:00:00'')]\<rparr>]),
      Inr (SearchSuccess ''walk'' 2
        [\<lparr>s_name = ''Lincoln'', s_type = ''person'', s_database = ''default'',
          s_salience = ''active'',
          s_observations = [(''Walked the dog'', ''2026-01-04T09:00:00''),
                            (''Likes long walks'', ''2026-01-02T09:00:00'')]\<rparr>,
         \<lparr>s_name = ''Abe'', s_type = ''person'', s_database = ''default'',
          s_salience = ''active'',
          s_observations = [(''Walks to work'', ''2026-01-01T09:00:00'')]\<rparr>])] \<and>
   search_memories default_limits no_faults search_example_db ''walk'' None 2 =
     [Inr (SearchSuccess ''walk'' 1
        [\<lparr>s_name = ''Lincoln'', s_type = ''person'', s_database = ''default'',
          s_salience = ''active'',
          s_observations = [(''Likes long walks'', ''2026-01-02T09:00:00''),
                            (''Walked the dog'', ''2026-01-04T09:00:00'')]\<rparr>]),
      Inr (SearchSuccess ''walk'' 1
        [\<lparr>s_name = ''Lincoln'', s_type = ''person'', s_database = ''default'',
          s_salience = ''active'',
          s_observations = [(''Walked the dog'', ''2026-01-04T09:00:00''),
                            (''Likes long walks'', ''2026-01-02T09:00:00'')]\<rparr>])]"
proof -
  have e: "search_error default_limits search_example_db ''%walk%'' None n = None"
    if "fits_int64 n" for n
    using that
    by (simp add: search_error_def default_limits_def utf8_length_def or_else_def)
  have "fits_int64 10" "fits_int64 2"
    by (simp_all add: fits_int64_def)
  note e10 = e [OF this(1)] and e2 = e [OF this(2)]
  have f10: "remdups (map (\<lambda>rows. Inr (search_success ''walk'' rows))
               (search_fetches search_example_db ''%walk%'' None 10)) =
     [Inr (SearchSuccess ''walk'' 2
        [\<lparr>s_name = ''Lincoln'', s_type = ''person'', s_database = ''default'',
          s_salience = ''active'',
          s_observations = [(''Likes long walks'', ''2026-01-02T09:00:00''),
                            (''Walked the dog'', ''2026-01-04T09:00:00'')]\<rparr>,
         \<lparr>s_name = ''Abe'', s_type = ''person'', s_database = ''default'',
          s_salience = ''active'',
          s_observations = [(''Walks to work'', ''2026-01-01T09:00:00'')]\<rparr>]),
      Inr (SearchSuccess ''walk'' 2
        [\<lparr>s_name = ''Lincoln'', s_type = ''person'', s_database = ''default'',
          s_salience = ''active'',
          s_observations = [(''Walked the dog'', ''2026-01-04T09:00:00''),
                            (''Likes long walks'', ''2026-01-02T09:00:00'')]\<rparr>,
         \<lparr>s_name = ''Abe'', s_type = ''person'', s_database = ''default'',
          s_salience = ''active'',
          s_observations = [(''Walks to work'', ''2026-01-01T09:00:00'')]\<rparr>])
      :: exn + search_result]"
    by code_simp
  have f2: "remdups (map (\<lambda>rows. Inr (search_success ''walk'' rows))
               (search_fetches search_example_db ''%walk%'' None 2)) =
     [Inr (SearchSuccess ''walk'' 1
        [\<lparr>s_name = ''Lincoln'', s_type = ''person'', s_database = ''default'',
          s_salience = ''active'',
          s_observations = [(''Likes long walks'', ''2026-01-02T09:00:00''),
                            (''Walked the dog'', ''2026-01-04T09:00:00'')]\<rparr>]),
      Inr (SearchSuccess ''walk'' 1
        [\<lparr>s_name = ''Lincoln'', s_type = ''person'', s_database = ''default'',
          s_salience = ''active'',
          s_observations = [(''Walked the dog'', ''2026-01-04T09:00:00''),
                            (''Likes long walks'', ''2026-01-02T09:00:00'')]\<rparr>])
      :: exn + search_result]"
    by code_simp
  show ?thesis
    by (simp add: search_memories_def no_faults_def Let_def e10 e2 f10 f2 del: remdups.simps)
qed

section \<open>The index of the journal\<close>

lemma fold_max_ge: "s \<le> fold max ids (s::nat)"
  by (induction ids arbitrary: s) (auto intro: order_trans [OF max.cobounded2])

lemma fold_max_mem: "x \<in> set ids \<Longrightarrow> x \<le> fold max ids (s::nat)"
proof (induction ids arbitrary: s)
  case Nil
  then show ?case by simp
next
  case (Cons a ids)
  show ?case
  proof (cases "x = a")
    case True
    have "a \<le> max a s" by simp
    also have "\<dots> \<le> fold max ids (max a s)" by (rule fold_max_ge)
    finally show ?thesis using True by simp
  next
    case False
    with Cons show ?thesis by simp
  qed
qed

lemma next_rowid_fresh: "x \<in> set ids \<Longrightarrow> x < next_rowid seq ids"
  by (simp add: next_rowid_def fold_max_mem less_Suc_eq_le)

lemma next_rowid_notin: "next_rowid seq ids \<notin> set ids"
  using next_rowid_fresh [of "next_rowid seq ids" ids seq] by auto

lemma insert_entry_in_step:
  "fts_in_step db \<Longrightarrow> insert_entry db vals = Inr (i, db1) \<Longrightarrow> fts_in_step db1"
  using next_rowid_notin [of "entries_seq db" "map j_id (entries db)"]
  by (auto simp: fts_in_step_def insert_entry_def entries_ai_def Let_def split: if_splits)

lemma void_write_entry_db:
  "snd (void_write_entry flt now db title summary decisions open_loops artifacts tags importance
          session_id thread_id) = db \<or>
   (\<exists>vals i. insert_entry db vals =
        Inr (i, snd (void_write_entry flt now db title summary decisions open_loops artifacts
          tags importance session_id thread_id)))"
  by (auto simp: void_write_entry_def Let_def split: option.splits sum.splits)

lemma void_write_entry_in_step:
  assumes "fts_in_step db"
  shows "fts_in_step (snd (void_write_entry flt now db title summary decisions open_loops
           artifacts tags importance session_id thread_id))"
  using void_write_entry_db [of flt now db title summary decisions open_loops artifacts tags
      importance session_id thread_id] insert_entry_in_step [OF assms] assms
  by auto

lemma journal_step_in_step: "fts_in_step db \<Longrightarrow> fts_in_step (journal_step db c)"
proof -
  assume db: "fts_in_step db"
  obtain flt now op where c: "c = (flt, now, op)"
    by (cases c) auto
  show ?thesis
    unfolding c using db
    by (cases op) (simp_all add: void_append_snippet_def void_write_entry_in_step)
qed

lemma journal_run_in_step: "fts_in_step db \<Longrightarrow> fts_in_step (foldl journal_step db ops)"
  by (induction ops arbitrary: db) (simp_all add: journal_step_in_step)

lemma in_step_counts:
  assumes "fts_in_step db"
  shows "index_rows_of db i = entries_of db i" and "entries_of db i \<le> 1"
proof -
  have "length (filter (\<lambda>r. f_rowid r = i) (map index_row xs)) =
        length (filter (\<lambda>e. j_id e = i) xs)" for xs
    by (induction xs) (auto simp: index_row_def)
  with assms show "index_rows_of db i = entries_of db i"
    by (simp add: index_rows_of_def entries_of_def fts_in_step_def)
  have "distinct (map j_id xs) \<Longrightarrow> length (filter (\<lambda>e. j_id e = i) xs) \<le> 1" for xs
    by (induction xs) (auto simp: filter_empty_conv image_iff)
  from this [of "entries db"] assms show "entries_of db i \<le> 1"
    by (simp add: entries_of_def fts_in_step_def)
qed

text \<open>
  Claim C5. From tables in step, every sequence of journal operations, each with any
  faults, leaves the tables in step: after each operation every entry id has exactly
  one index row, and an id without an entry has none. A write whose INSERT or commit
  fails leaves neither an entry nor an index row. The program has no operation that
  updates or deletes an entry.
\<close>

theorem journal_index_in_step:
  assumes "fts_in_step db"
  shows "fts_in_step (foldl journal_step db ops) \<and>
         (\<forall>i. index_rows_of (foldl journal_step db ops) i =
                 entries_of (foldl journal_step db ops) i \<and>
               entries_of (foldl journal_step db ops) i \<le> 1)"
  using in_step_counts [OF journal_run_in_step [OF assms, of ops]]
    journal_run_in_step [OF assms, of ops]
  by simp

theorem journal_index_in_step_witness:
  "fts_in_step (foldl journal_step empty_void_db journal_example) \<and>
   index_rows_of (foldl journal_step empty_void_db journal_example) 2 = 1 \<and>
   entries_of (foldl journal_step empty_void_db journal_example) 2 = 1 \<and>
   index_rows_of (foldl journal_step empty_void_db journal_example) 3 = 0"
proof -
  have h: "fts_in_step empty_void_db"
    by (simp add: fts_in_step_def empty_void_db_def)
  have e: "entries_of (foldl journal_step empty_void_db journal_example) 2 = 1"
    "entries_of (foldl journal_step empty_void_db journal_example) 3 = 0"
    by code_simp+
  show ?thesis
    using journal_index_in_step [OF h, of journal_example] e by simp
qed

section \<open>void\_append\_snippet as a call of void\_write\_entry\<close>

text \<open>
  Claim C10. For every text, tags, session id, thread id and importance, on every
  store and under every fault, \<open>void_append_snippet\<close> returns the result and leaves
  the store that \<open>void_write_entry\<close> does with title \<open>Snippet\<close>, the text as summary,
  empty decisions and open loops, artifacts \<open>{"snippet": text}\<close> and the tags given
  when there are any, else \<open>["snippet"]\<close>.
\<close>

theorem void_append_snippet_refines:
  "void_append_snippet flt now db text tags session_id thread_id importance =
   snippet_as_entry flt now db text tags session_id thread_id importance"
proof -
  have "or_else tags [''snippet''] =
      (case tags of None \<Rightarrow> [''snippet'']
       | Some ts \<Rightarrow> (case ts of [] \<Rightarrow> [''snippet''] | t # ts' \<Rightarrow> ts))"
    by (cases tags) (auto simp: or_else_def split: list.splits)
  then show ?thesis
    by (simp add: void_append_snippet_def snippet_as_entry_def)
qed

theorem void_append_snippet_refines_witness:
  "void_append_snippet no_faults ''2026-01-01T11:00:00'' empty_void_db ''kept'' (Some [])
     None None 1 =
   void_write_entry no_faults ''2026-01-01T11:00:00'' empty_void_db ''Snippet'' ''kept''
     (Some []) (Some []) (Some [(''snippet'', JString ''kept'')]) (Some [''snippet''])
     1 None None"
  using void_append_snippet_refines [of no_faults "''2026-01-01T11:00:00''" empty_void_db
      "''kept''" "Some []" None None 1]
  by (simp add: snippet_as_entry_def)

section \<open>Reading back what json.dumps wrote\<close>

lemma hex4_control:
  "\<forall>n \<in> set [0..<32]. hex4 (CHR ''0'') (CHR ''0'') (hex_digits ! (n div 16)) (hex_digits ! (n mod 16))
      = Some (char_of n)"
  by code_simp

lemma of_char_less_32: "c < CHR 0x20 \<Longrightarrow> (of_char c :: nat) < 32"
  by (simp add: less_char_def)

lemma parse_chars_escape:
  "parse_chars (escape_char c @ r) = map_option (apfst ((#) c)) (parse_chars r)"
proof -
  consider "c = dquote" | "c = backslash" | "c = CHR 0x0A" | "c = CHR 0x0D" | "c = CHR 0x09"
    | "c = CHR 0x08" | "c = CHR 0x0C"
    | "c \<noteq> dquote" "c \<noteq> backslash" "c \<noteq> CHR 0x0A" "c \<noteq> CHR 0x0D" "c \<noteq> CHR 0x09"
      "c \<noteq> CHR 0x08" "c \<noteq> CHR 0x0C" "c < CHR 0x20"
    | "c \<noteq> dquote" "c \<noteq> backslash" "\<not> c < CHR 0x20"
    by blast
  then show ?thesis
  proof cases
    case 8
    then have esc: "escape_char c = [backslash, CHR ''u'', CHR ''0'', CHR ''0'',
        hex_digits ! (of_char c div 16), hex_digits ! (of_char c mod 16)]"
      by (simp add: escape_char_def)
    from of_char_less_32 [OF \<open>c < CHR 0x20\<close>] hex4_control
    have "hex4 (CHR ''0'') (CHR ''0'') (hex_digits ! (of_char c div 16))
        (hex_digits ! (of_char c mod 16)) = Some (char_of (of_char c :: nat))"
      by simp
    then show ?thesis
      by (simp add: esc dquote_def backslash_def)
  next
    case 9
    then have "escape_char c = [c]"
      by (auto simp: escape_char_def dquote_def backslash_def less_char_def)
    with 9 show ?thesis
      by simp
  qed (simp_all add: escape_char_def unescape_def dquote_def backslash_def)
qed

lemma parse_chars_dumps:
  "parse_chars (concat (map escape_char s) @ dquote # r) = Some (s, r)"
  by (induction s) (simp_all add: parse_chars_escape)

lemma digits_simps_le: "n < 10 \<Longrightarrow> digits n = [char_of (48 + n)]"
  by simp

lemma digits_simps_ge:
  "\<not> n < 10 \<Longrightarrow> digits n = digits (n div 10) @ [char_of (48 + n mod 10)]"
  by (subst digits.simps) simp

declare digits.simps [simp del]

lemma is_digit_char_of: "d < 10 \<Longrightarrow> is_digit (char_of (48 + d :: nat))"
  by (simp add: is_digit_def less_eq_char_def)

lemma val_char_of: "d < 10 \<Longrightarrow> (of_char (char_of (48 + d :: nat)) :: nat) - 48 = d"
  by simp

lemma digits_all: "c \<in> set (digits n) \<Longrightarrow> is_digit c"
proof (induction n arbitrary: c rule: digits.induct)
  case (1 n)
  show ?case
  proof (cases "n < 10")
    case True
    with "1.prems" show ?thesis
      by (simp add: digits_simps_le is_digit_char_of)
  next
    case False
    with "1.prems" "1.IH" show ?thesis
      by (auto simp: digits_simps_ge is_digit_char_of)
  qed
qed

lemma digits_not_Nil: "digits n \<noteq> []"
  by (cases "n < 10") (simp_all add: digits_simps_le digits_simps_ge)

lemma digits_value: "foldl (\<lambda>a d. 10 * a + (of_char d - 48)) 0 (digits n) = n"
proof (induction n rule: digits.induct)
  case (1 n)
  show ?case
  proof (cases "n < 10")
    case True
    then show ?thesis
      by (simp add: digits_simps_le)
  next
    case False
    with "1.IH" show ?thesis
      by (simp add: digits_simps_ge)
  qed
qed

lemma char_of_48: "d < 10 \<Longrightarrow> char_of (48 + d :: nat) = CHR ''0'' \<longleftrightarrow> d = 0"
proof -
  assume d: "d < 10"
  have "char_of (48 + d) = CHR ''0'' \<longleftrightarrow>
      (of_char (char_of (48 + d)) :: nat) = of_char (CHR ''0'')"
    by (simp only: of_char_eq_iff)
  with d show ?thesis
    by simp
qed

lemma hd_digits: "hd (digits n) = CHR ''0'' \<longleftrightarrow> n = 0"
proof (induction n rule: digits.induct)
  case (1 n)
  show ?case
  proof (cases "n < 10")
    case True
    then show ?thesis
      by (simp add: digits_simps_le char_of_48)
  next
    case False
    with "1.IH" digits_not_Nil [of "n div 10"] show ?thesis
      by (simp add: digits_simps_ge)
  qed
qed

lemma length_digits_0: "length (digits 0) = 1"
  by (simp add: digits_simps_le)

lemma takeWhile_digits:
  "follow_ok r \<Longrightarrow> takeWhile is_digit (digits n @ r) = digits n \<and>
     dropWhile is_digit (digits n @ r) = r"
  by (cases r) (auto simp: follow_ok_def digits_all takeWhile_eq_all_conv
      dropWhile_eq_Nil_conv)

lemma parse_nat_digits: "follow_ok r \<Longrightarrow> parse_nat (digits n @ r) = Some (n, r)"
proof -
  assume r: "follow_ok r"
  have "\<not> (1 < length (digits n) \<and> hd (digits n) = CHR ''0'')"
    using hd_digits [of n] length_digits_0 by auto
  with takeWhile_digits [OF r, of n] show ?thesis
    by (simp add: parse_nat_def Let_def digits_not_Nil digits_value)
qed

lemma hd_digits_not_minus: "hd (digits n) \<noteq> CHR ''-''"
  using digits_all [of "hd (digits n)" n] digits_not_Nil [of n]
  by (auto simp: is_digit_def less_eq_char_def)

lemma parse_int_dumps: "follow_ok r \<Longrightarrow> parse_int (dumps_int i @ r) = Some (i, r)"
proof -
  assume r: "follow_ok r"
  show ?thesis
  proof (cases "i < 0")
    case True
    with parse_nat_digits [OF r, of "nat (- i)"] show ?thesis
      by (simp add: parse_int_def dumps_int_def)
  next
    case False
    obtain c cs where d: "digits (nat i) = c # cs"
      using digits_not_Nil [of "nat i"] by (cases "digits (nat i)") auto
    with hd_digits_not_minus [of "nat i"] have "c \<noteq> CHR ''-''"
      by simp
    with parse_nat_digits [OF r, of "nat i"] False d show ?thesis
      by (simp add: parse_int_def dumps_int_def)
  qed
qed

lemma join_Cons: "join sep (x # xs) = x @ concat (map (\<lambda>y. sep @ y) xs)"
  by (induction xs arbitrary: x) simp_all

lemma skip_ws_space [simp]: "skip_ws (CHR '' '' # s) = skip_ws s"
  by (simp add: skip_ws_def is_ws_def)

lemma skip_ws_starts: "starts_value s \<Longrightarrow> skip_ws s = s"
  by (cases s) (simp_all add: starts_value_def skip_ws_def)

lemma skip_ws_sep [simp]:
  "skip_ws (CHR '','' # s) = CHR '','' # s"
  "skip_ws (CHR '']'' # s) = CHR '']'' # s"
  "skip_ws (CHR ''}'' # s) = CHR ''}'' # s"
  "skip_ws (CHR '':'' # s) = CHR '':'' # s"
  by (simp_all add: skip_ws_def is_ws_def)

lemma parse_value_space [simp]: "parse_value n (CHR '' '' # s) = parse_value n s"
  by (cases n) simp_all

lemma parse_elements_space [simp]: "parse_elements n (CHR '' '' # s) = parse_elements n s"
  by (cases n) simp_all

lemma parse_members_space [simp]: "parse_members n (CHR '' '' # s) = parse_members n s"
  by (cases n) simp_all

lemma starts_digits: "starts_value (digits n @ r)"
proof -
  obtain c cs where d: "digits n = c # cs"
    using digits_not_Nil [of n] by (cases "digits n") auto
  with digits_all [of c n] have "is_digit c"
    by simp
  then show ?thesis
    by (auto simp: d starts_value_def is_digit_def is_ws_def less_eq_char_def)
qed

lemma starts_dumps: "starts_value (json_dumps v @ r)"
proof (cases v)
  case (JInt i)
  then show ?thesis
    using starts_digits [of "nat i" r]
    by (auto simp: dumps_int_def starts_value_def is_ws_def)
qed (simp_all add: starts_value_def is_ws_def dumps_string_def dquote_def)

lemma follow_ok_sep [simp]:
  "follow_ok (CHR '','' # s)" "follow_ok (CHR '']'' # s)" "follow_ok (CHR ''}'' # s)"
  "follow_ok []"
  by (simp_all add: follow_ok_def is_digit_def less_eq_char_def)

lemma dict_set_fresh: "k \<notin> fst ` set xs \<Longrightarrow> dict_set xs (k, v) = xs @ [(k, v)]"
  by (induction xs) auto

lemma foldl_dict_set:
  "distinct (map fst (acc @ kvs)) \<Longrightarrow> foldl dict_set acc kvs = acc @ kvs"
proof (induction kvs arbitrary: acc)
  case Nil
  then show ?case by simp
next
  case (Cons kv kvs)
  obtain k v where kv: "kv = (k, v)"
    by (cases kv) auto
  from Cons.prems have "k \<notin> fst ` set acc"
    by (auto simp: kv)
  then have "dict_set acc kv = acc @ [kv]"
    unfolding kv by (rule dict_set_fresh)
  with Cons.IH [of "acc @ [kv]"] Cons.prems show ?case
    by simp
qed

lemma dict_of_pairs_distinct: "distinct (map fst kvs) \<Longrightarrow> dict_of_pairs kvs = kvs"
  using foldl_dict_set [of "[]" kvs] by (simp add: dict_of_pairs_def)

lemma reads_backD:
  "reads_back v \<Longrightarrow> need v \<le> n \<Longrightarrow> follow_ok r \<Longrightarrow> parse_value n (json_dumps v @ r) = Some (v, r)"
  by (simp add: reads_back_def)

lemma parse_elements_dumps:
  assumes "\<And>y. y \<in> set (x # xs) \<Longrightarrow> reads_back y"
    and "sum_list (map (\<lambda>x. Suc (need x)) (x # xs)) \<le> n"
  shows "parse_elements n (json_dumps x @ concat (map (\<lambda>y. '', '' @ json_dumps y) xs) @ CHR '']'' # r)
         = Some (x # xs, r)"
  using assms
proof (induction xs arbitrary: x n)
  case Nil
  then obtain m where n: "n = Suc m" and m: "need x \<le> m"
    by (cases n) auto
  from Nil.prems(1) [of x] have "reads_back x"
    by simp
  from reads_backD [OF this m, of "CHR '']'' # r"] show ?case
    by (simp add: n)
next
  case (Cons y ys)
  then obtain m where n: "n = Suc m" and m: "need x \<le> m"
    and rest: "sum_list (map (\<lambda>x. Suc (need x)) (y # ys)) \<le> m"
    by (cases n) auto
  from Cons.prems(1) [of x] have "reads_back x"
    by simp
  from reads_backD [OF this m,
      of "CHR '','' # CHR '' '' # json_dumps y @ concat (map (\<lambda>y. '', '' @ json_dumps y) ys) @ CHR '']'' # r"]
  have x: "parse_value m (json_dumps x @ CHR '','' # CHR '' '' # json_dumps y @
      concat (map (\<lambda>y. '', '' @ json_dumps y) ys) @ CHR '']'' # r) =
      Some (x, CHR '','' # CHR '' '' # json_dumps y @
        concat (map (\<lambda>y. '', '' @ json_dumps y) ys) @ CHR '']'' # r)"
    by simp
  have "parse_elements m (json_dumps y @ concat (map (\<lambda>y. '', '' @ json_dumps y) ys) @ CHR '']'' # r)
      = Some (y # ys, r)"
    using Cons.prems(1) rest by (intro Cons.IH) auto
  with x show ?case
    by (simp add: n)
qed

lemma skip_ws_dquote [simp]: "skip_ws (dquote # s) = dquote # s"
  by (simp add: skip_ws_def is_ws_def dquote_def)

lemma parse_members_dumps:
  assumes "\<And>kv. kv \<in> set (kv0 # kvs) \<Longrightarrow> reads_back (snd kv)"
    and "sum_list (map (\<lambda>kv. Suc (need (snd kv))) (kv0 # kvs)) \<le> n"
  shows "parse_members n
           ((dumps_string (fst kv0) @ '': '' @ json_dumps (snd kv0)) @
            concat (map (\<lambda>kv. '', '' @ dumps_string (fst kv) @ '': '' @ json_dumps (snd kv)) kvs) @
            CHR ''}'' # r)
         = Some (kv0 # kvs, r)"
  using assms
proof (induction kvs arbitrary: kv0 n)
  case Nil
  then obtain m where n: "n = Suc m" and m: "need (snd kv0) \<le> m"
    by (cases n) auto
  from Nil.prems(1) [of kv0] have "reads_back (snd kv0)"
    by simp
  from reads_backD [OF this m, of "CHR ''}'' # r"] show ?case
    by (simp add: n dumps_string_def parse_chars_dumps)
next
  case (Cons kv1 kvs)
  let ?tail = "(dumps_string (fst kv1) @ '': '' @ json_dumps (snd kv1)) @
      concat (map (\<lambda>kv. '', '' @ dumps_string (fst kv) @ '': '' @ json_dumps (snd kv)) kvs) @
      CHR ''}'' # r"
  from Cons.prems obtain m where n: "n = Suc m" and m: "need (snd kv0) \<le> m"
    and rest: "sum_list (map (\<lambda>kv. Suc (need (snd kv))) (kv1 # kvs)) \<le> m"
    by (cases n) auto
  from Cons.prems(1) [of kv0] have "reads_back (snd kv0)"
    by simp
  from reads_backD [OF this m, of "CHR '','' # CHR '' '' # ?tail"]
  have v: "parse_value m (json_dumps (snd kv0) @ CHR '','' # CHR '' '' # ?tail) =
      Some (snd kv0, CHR '','' # CHR '' '' # ?tail)"
    by simp
  have tail: "parse_members m ?tail = Some (kv1 # kvs, r)"
    using Cons.prems(1) rest by (intro Cons.IH) auto
  have "parse_members (Suc m)
      (dquote # concat (map escape_char (fst kv0)) @ dquote # CHR '':'' # CHR '' '' #
        json_dumps (snd kv0) @ CHR '','' # CHR '' '' # ?tail) = Some (kv0 # kv1 # kvs, r)"
    using v tail by (simp add: parse_chars_dumps)
  then show ?case
    by (simp add: n dumps_string_def)
qed

lemma need_pos: "0 < need v"
  by (cases v) simp_all

lemma reads_backI:
  assumes "\<And>m r. follow_ok r \<Longrightarrow> parse_value (Suc m) (json_dumps v @ r) = Some (v, r)"
  shows "reads_back v"
  unfolding reads_back_def
proof (intro allI impI)
  fix n r
  assume "need v \<le> n" and r: "follow_ok r"
  with need_pos [of v] obtain m where "n = Suc m"
    by (cases n) auto
  with assms [OF r] show "parse_value n (json_dumps v @ r) = Some (v, r)"
    by simp
qed

lemma reads_back_int: "reads_back (JInt i)"
proof (rule reads_backI)
  fix m r
  assume r: "follow_ok r"
  obtain c cs where s: "dumps_int i @ r = c # cs"
    using digits_not_Nil by (cases "dumps_int i @ r") (auto simp: dumps_int_def split: if_splits)
  have "c = CHR ''-'' \<or> is_digit c"
  proof (cases "i < 0")
    case True
    with s show ?thesis by (simp add: dumps_int_def)
  next
    case False
    obtain d ds where d: "digits (nat i) = d # ds"
      using digits_not_Nil [of "nat i"] by (cases "digits (nat i)") auto
    with digits_all [of d "nat i"] False s show ?thesis
      by (simp add: dumps_int_def)
  qed
  then have c: "\<not> is_ws c" "c \<noteq> CHR ''n''" "c \<noteq> CHR ''t''" "c \<noteq> CHR ''f''" "c \<noteq> dquote"
    "c \<noteq> CHR ''[''" "c \<noteq> CHR ''{''"
    by (auto simp: is_digit_def is_ws_def dquote_def less_eq_char_def)
  from parse_int_dumps [OF r, of i] s have "parse_int (c # cs) = Some (i, r)"
    by simp
  with c have "parse_value (Suc m) (c # cs) = Some (JInt i, r)"
    by (simp add: skip_ws_def)
  with s show "parse_value (Suc m) (json_dumps (JInt i) @ r) = Some (JInt i, r)"
    by simp
qed

lemma reads_back_null: "reads_back JNull"
  by (rule reads_backI) (simp add: skip_ws_def is_ws_def dquote_def)

lemma reads_back_bool: "reads_back (JBool b)"
  by (rule reads_backI) (simp add: skip_ws_def is_ws_def dquote_def)

lemma reads_back_string: "reads_back (JString s)"
proof (rule reads_backI)
  fix m r
  have "dquote \<noteq> CHR ''n''" "dquote \<noteq> CHR ''t''" "dquote \<noteq> CHR ''f''"
    by (simp_all add: dquote_def)
  then show "parse_value (Suc m) (json_dumps (JString s) @ r) = Some (JString s, r)"
    by (simp add: dumps_string_def parse_chars_dumps)
qed

lemma reads_back_array:
  assumes "\<And>y. y \<in> set xs \<Longrightarrow> reads_back y"
  shows "reads_back (JArray xs)"
  unfolding reads_back_def
proof (intro allI impI)
  fix n r
  assume need: "need (JArray xs) \<le> n"
  then obtain m where n: "n = Suc m" and m: "sum_list (map (\<lambda>x. Suc (need x)) xs) \<le> m"
    by (cases n) auto
  show "parse_value n (json_dumps (JArray xs) @ r) = Some (JArray xs, r)"
  proof (cases xs)
    case Nil
    then show ?thesis
      by (simp add: n skip_ws_def is_ws_def dquote_def)
  next
    case (Cons x xs')
    let ?body = "json_dumps x @ concat (map (\<lambda>y. '', '' @ json_dumps y) xs') @ CHR '']'' # r"
    from starts_dumps [of x "concat (map (\<lambda>y. '', '' @ json_dumps y) xs') @ CHR '']'' # r"]
    have st: "starts_value ?body"
      by simp
    then obtain d ds where body: "?body = d # ds" and d: "d \<noteq> CHR '']''"
      by (cases ?body) (auto simp: starts_value_def)
    from parse_elements_dumps [of x xs' m r] assms m Cons
    have "parse_elements m ?body = Some (x # xs', r)"
      by simp
    with skip_ws_starts [OF st] body d
    have "parse_value (Suc m) (CHR ''['' # ?body) = Some (JArray (x # xs'), r)"
      by (simp add: skip_ws_def is_ws_def dquote_def)
    then show ?thesis
      by (simp add: n Cons join_Cons map_map comp_def)
  qed
qed

lemma reads_back_object:
  assumes "\<And>kv. kv \<in> set kvs \<Longrightarrow> reads_back (snd kv)" and "distinct (map fst kvs)"
  shows "reads_back (JObject kvs)"
  unfolding reads_back_def
proof (intro allI impI)
  fix n r
  assume need: "need (JObject kvs) \<le> n"
  then obtain m where n: "n = Suc m"
    and m: "sum_list (map (\<lambda>kv. Suc (need (snd kv))) kvs) \<le> m"
    by (cases n) auto
  show "parse_value n (json_dumps (JObject kvs) @ r) = Some (JObject kvs, r)"
  proof (cases kvs)
    case Nil
    then show ?thesis
      by (simp add: n skip_ws_def is_ws_def dquote_def)
  next
    case (Cons kv kvs')
    let ?body = "(dumps_string (fst kv) @ '': '' @ json_dumps (snd kv)) @
        concat (map (\<lambda>kv. '', '' @ dumps_string (fst kv) @ '': '' @ json_dumps (snd kv)) kvs') @
        CHR ''}'' # r"
    obtain ds where body: "?body = dquote # ds"
      by (simp add: dumps_string_def)
    have d: "dquote \<noteq> CHR ''}''" "\<not> is_ws dquote"
      by (simp_all add: dquote_def is_ws_def)
    from parse_members_dumps [of kv kvs' m r] assms(1) m Cons
    have "parse_members m ?body = Some (kv # kvs', r)"
      by simp
    with body d dict_of_pairs_distinct [OF assms(2)] Cons
    have "parse_value (Suc m) (CHR ''{'' # ?body) = Some (JObject (kv # kvs'), r)"
      by (simp add: skip_ws_def is_ws_def) (simp add: dquote_def)
    then show ?thesis
      by (simp add: n Cons join_Cons map_map comp_def)
  qed
qed

lemma wf_reads_back: "wf_json v \<Longrightarrow> reads_back v"
proof (induction v)
  case (JArray xs)
  then show ?case
    by (intro reads_back_array) (auto simp: list_all_iff)
next
  case (JObject kvs)
  have "reads_back (snd kv)" if kv: "kv \<in> set kvs" for kv
  proof -
    have "snd kv \<in> Basic_BNFs.snds kv"
      by (cases kv) simp
    moreover have "wf_json (snd kv)"
      using JObject.prems kv by (auto simp: list_all_iff)
    ultimately show ?thesis
      using JObject.IH kv by blast
  qed
  with JObject.prems show ?case
    by (intro reads_back_object) auto
qed (simp_all add: reads_back_null reads_back_bool reads_back_string reads_back_int)

lemma sum_need_concat:
  assumes "\<And>y. y \<in> set ys \<Longrightarrow> f y \<le> length (g y)"
  shows "sum_list (map (\<lambda>y. Suc (f y)) ys) \<le> length (concat (map (\<lambda>y. '', '' @ g y) ys))"
  using assms
proof (induction ys)
  case Nil
  then show ?case by simp
next
  case (Cons y ys)
  from Cons.prems [of y] have "f y \<le> length (g y)"
    by simp
  moreover from Cons have "sum_list (map (\<lambda>y. Suc (f y)) ys) \<le>
      length (concat (map (\<lambda>y. '', '' @ g y) ys))"
    by simp
  ultimately show ?case
    by simp
qed

lemma sum_need_join:
  assumes "\<And>y. y \<in> set ys \<Longrightarrow> f y \<le> length (g y)"
  shows "sum_list (map (\<lambda>y. Suc (f y)) ys) \<le> Suc (length (join '', '' (map g ys)))"
proof (cases ys)
  case Nil
  then show ?thesis by simp
next
  case (Cons y ys')
  from assms [of y] Cons have "f y \<le> length (g y)"
    by simp
  moreover from sum_need_concat [of ys' f g] assms Cons
  have "sum_list (map (\<lambda>y. Suc (f y)) ys') \<le> length (concat (map (\<lambda>y. '', '' @ g y) ys'))"
    by simp
  ultimately show ?thesis
    by (simp add: Cons join_Cons map_map comp_def)
qed

lemma need_le_length: "need v \<le> length (json_dumps v)"
proof (induction v)
  case (JInt i)
  have "0 < length (digits n)" for n
    using digits_not_Nil [of n] by simp
  from this [of "nat i"] this [of "nat (- i)"] show ?case
    by (simp add: dumps_int_def Suc_le_eq)
next
  case (JArray xs)
  from sum_need_join [of xs need json_dumps] JArray show ?case
    by simp
next
  case (JObject kvs)
  have "need (snd kv) \<le> length (dumps_string (fst kv) @ '': '' @ json_dumps (snd kv))"
    if kv: "kv \<in> set kvs" for kv
  proof -
    have "snd kv \<in> Basic_BNFs.snds kv"
      by (cases kv) simp
    with JObject kv have "need (snd kv) \<le> length (json_dumps (snd kv))"
      by blast
    then show ?thesis
      by simp
  qed
  from sum_need_join [of kvs "\<lambda>kv. need (snd kv)"
      "\<lambda>kv. dumps_string (fst kv) @ '': '' @ json_dumps (snd kv)"] this
  show ?case
    by simp
qed (simp_all add: dumps_string_def)

lemma json_loads_dumps: "wf_json v \<Longrightarrow> json_loads (json_dumps v) = Some v"
proof -
  assume "wf_json v"
  then have "reads_back v"
    by (rule wf_reads_back)
  moreover have "need v \<le> Suc (length (json_dumps v))"
    using need_le_length [of v] by simp
  ultimately have "parse_value (Suc (length (json_dumps v))) (json_dumps v @ []) = Some (v, [])"
    by (intro reads_backD) simp_all
  then show ?thesis
    by (simp add: json_loads_def skip_ws_def)
qed

lemma json_dumps_not_Nil: "json_dumps v \<noteq> []"
  using need_le_length [of v] need_pos [of v] by auto

lemma find_fresh_last:
  "\<forall>x \<in> set xs. \<not> P x \<Longrightarrow> P y \<Longrightarrow> find P (xs @ [y]) = Some y"
  by (induction xs) simp_all

lemma find_none: "\<forall>x \<in> set xs. \<not> P x \<Longrightarrow> find P xs = None"
  by (induction xs) simp_all

lemma or_else_dumps: "or_else (Some (json_dumps v)) d = json_dumps v"
  by (simp add: or_else_def json_dumps_not_Nil)

text \<open>An importance outside 64 bits is refused, and nothing is written.\<close>

lemma void_write_entry_refuses:
  "void_write_entry no_faults now db title summary decisions open_loops artifacts tags (2 ^ 63)
     session_id thread_id = (Inl int_too_large, db)"
  by (simp add: void_write_entry_def no_faults_def fits_int64_def Let_def del: json_dumps.simps)

text \<open>
  Claim C9 as stated fails: it is stated for every artifacts mapping and every id. A
  tuple among the artifacts is written as a JSON array and comes back as a list, which
  is not the tuple; and an id outside the 64-bit range is refused by the sqlite3 module
  before any table is read, so that \<open>void_get_entry\<close> raises OverflowError where the
  claim has a not-found result.
\<close>

theorem void_entry_tuple_read_as_list:
  "void_write_entry no_faults ''2026-01-01T09:00:00'' empty_void_db ''Design Review''
     ''Discussed X'' (Some []) (Some []) (Some [(''lines'', JTuple [JInt 12, JInt 3])])
     None 1 None None =
     (Inr (WriteOk 1),
      snd (void_write_entry no_faults ''2026-01-01T09:00:00'' empty_void_db ''Design Review''
        ''Discussed X'' (Some []) (Some []) (Some [(''lines'', JTuple [JInt 12, JInt 3])])
        None 1 None None)) \<and>
   void_get_entry no_faults
     (snd (void_write_entry no_faults ''2026-01-01T09:00:00'' empty_void_db ''Design Review''
        ''Discussed X'' (Some []) (Some []) (Some [(''lines'', JTuple [JInt 12, JInt 3])])
        None 1 None None)) 1 =
     Inr (GetOk \<lparr>v_id = 1, v_created_at = ''2026-01-01T09:00:00'', v_session_id = None,
                 v_thread_id = None, v_title = Some ''Design Review'',
                 v_summary = Some ''Discussed X'', v_decisions = Some [],
                 v_open_loops = Some [],
                 v_artifacts = JObject [(''lines'', JArray [JInt 12, JInt 3])],
                 v_tags = JArray [], v_importance = Some 1\<rparr>) \<and>
   JObject [(''lines'', JArray [JInt 12, JInt 3])] \<noteq>
     JObject [(''lines'', JTuple [JInt 12, JInt 3])] \<and>
   void_get_entry no_faults empty_void_db (2 ^ 63) = Inl int_too_large"
proof -
  let ?a = "[(''lines'', JTuple [JInt 12, JInt 3])]"
  let ?b = "[(''lines'', JArray [JInt 12, JInt 3])]"
  let ?new = "\<lparr>j_id = 1, j_created_at = ''2026-01-01T09:00:00'', j_session_id = None,
      j_thread_id = None, j_title = Some ''Design Review'', j_summary = Some ''Discussed X'',
      j_decisions = Some [], j_open_loops = Some [],
      j_artifacts_json = Some (json_dumps (JObject ?b)),
      j_tags_json = Some (json_dumps (JArray [])), j_importance = Some 1\<rparr>"
  let ?db' = "\<lparr>entries = [?new], entries_fts = [index_row ?new], entries_seq = 1\<rparr>"
  have d: "json_dumps (JObject ?a) = json_dumps (JObject ?b)"
    by simp
  have w: "void_write_entry no_faults ''2026-01-01T09:00:00'' empty_void_db ''Design Review''
      ''Discussed X'' (Some []) (Some []) (Some ?a) None 1 None None = (Inr (WriteOk 1), ?db')"
    by (simp add: void_write_entry_def no_faults_def insert_entry_def entries_ai_def
        empty_void_db_def next_rowid_def fits_int64_def or_else_def Let_def d
        del: json_dumps.simps)
  have "wf_json (JObject ?b)" "wf_json (JArray [])"
    by simp_all
  note l = json_loads_dumps [OF this(1)] json_loads_dumps [OF this(2)]
  have g: "void_get_entry no_faults ?db' 1 =
      Inr (GetOk \<lparr>v_id = 1, v_created_at = ''2026-01-01T09:00:00'', v_session_id = None,
                  v_thread_id = None, v_title = Some ''Design Review'',
                  v_summary = Some ''Discussed X'', v_decisions = Some [],
                  v_open_loops = Some [], v_artifacts = JObject ?b,
                  v_tags = JArray [], v_importance = Some 1\<rparr>)"
    unfolding void_get_entry_def
    by (simp add: no_faults_def fits_int64_def or_else_dumps l del: json_dumps.simps)
  have o: "void_get_entry no_faults empty_void_db (2 ^ 63) = Inl int_too_large"
    by (simp add: void_get_entry_def no_faults_def fits_int64_def)
  from w g o show ?thesis
    by simp
qed

text \<open>
  Claim C9, as amended. Let the artifacts be a dictionary of JSON values (\<open>None\<close>,
  booleans, integers, strings, lists and dictionaries with string keys; no tuple), or
  \<open>None\<close>, inside the limits that the interpreter sets to \<open>json.dumps\<close> (here at most
  100 levels and integers of at most 4300 digits); let the tags be a list of strings,
  or \<open>None\<close>; let the importance fit 64 bits, and let the table have a rowid left.
  Then \<open>void_write_entry\<close> returns an id, and \<open>void_get_entry\<close> of that id returns the
  entry with the artifacts and tags that were given, \<open>None\<close> being read back as the
  empty dictionary and the empty list. \<open>void_get_entry\<close> of an id that fits 64 bits and
  that no entry has returns the not-found result.
\<close>

theorem void_entry_roundtrip:
  assumes "wf_json (JObject (or_else artifacts []))"
    and "within_limits 100 (JObject (or_else artifacts []))"
    and "fits_int64 importance"
    and "fits_int64 (int (next_rowid (entries_seq db) (map j_id (entries db))))"
  shows "(\<exists>i. void_write_entry no_faults now db title summary decisions open_loops artifacts tags
                importance session_id thread_id =
              (Inr (WriteOk i), snd (void_write_entry no_faults now db title summary decisions
                open_loops artifacts tags importance session_id thread_id)) \<and>
            void_get_entry no_faults
              (snd (void_write_entry no_faults now db title summary decisions open_loops
                artifacts tags importance session_id thread_id)) (int i) =
              Inr (GetOk \<lparr>v_id = i, v_created_at = now, v_session_id = session_id,
                          v_thread_id = thread_id, v_title = Some title,
                          v_summary = Some summary, v_decisions = decisions,
                          v_open_loops = open_loops,
                          v_artifacts = JObject (or_else artifacts []),
                          v_tags = JArray (map JString (or_else tags [])),
                          v_importance = Some importance\<rparr>)) \<and>
         (fits_int64 k \<and> list_all (\<lambda>row. int (j_id row) \<noteq> k) (entries db) \<longrightarrow>
            void_get_entry no_faults db k = Inr GetNotFound)"
proof (intro conjI impI)
  let ?i = "next_rowid (entries_seq db) (map j_id (entries db))"
  let ?new = "\<lparr>j_id = ?i, j_created_at = now, j_session_id = session_id,
      j_thread_id = thread_id, j_title = Some title, j_summary = Some summary,
      j_decisions = decisions, j_open_loops = open_loops,
      j_artifacts_json = Some (json_dumps (JObject (or_else artifacts []))),
      j_tags_json = Some (json_dumps (JArray (map JString (or_else tags [])))),
      j_importance = Some importance\<rparr>"
  let ?db' = "entries_ai (db\<lparr>entries := entries db @ [?new], entries_seq := ?i\<rparr>) ?new"
  have w: "void_write_entry no_faults now db title summary decisions open_loops artifacts tags
      importance session_id thread_id = (Inr (WriteOk ?i), ?db')"
    using assms(3,4)
    by (simp add: void_write_entry_def no_faults_def insert_entry_def Let_def
        del: json_dumps.simps)
  have "\<forall>row \<in> set (entries db). \<not> j_id row = ?i"
    using next_rowid_fresh [of _ "map j_id (entries db)" "entries_seq db"] by fastforce
  then have f: "find (\<lambda>row. j_id row = ?i) (entries ?db') = Some ?new"
    by (simp add: entries_ai_def find_fresh_last)
  have tags: "wf_json (JArray (map JString (or_else tags [])))"
    by (simp add: list_all_iff)
  have "void_get_entry no_faults ?db' (int ?i) =
      Inr (GetOk \<lparr>v_id = ?i, v_created_at = now, v_session_id = session_id,
                  v_thread_id = thread_id, v_title = Some title,
                  v_summary = Some summary, v_decisions = decisions,
                  v_open_loops = open_loops,
                  v_artifacts = JObject (or_else artifacts []),
                  v_tags = JArray (map JString (or_else tags [])),
                  v_importance = Some importance\<rparr>)"
    unfolding void_get_entry_def using assms(4)
    by (simp add: f no_faults_def or_else_dumps json_loads_dumps [OF assms(1)]
        json_loads_dumps [OF tags] del: json_dumps.simps)
  with w show "\<exists>i. void_write_entry no_faults now db title summary decisions open_loops artifacts
                tags importance session_id thread_id =
              (Inr (WriteOk i), snd (void_write_entry no_faults now db title summary decisions
                open_loops artifacts tags importance session_id thread_id)) \<and>
            void_get_entry no_faults
              (snd (void_write_entry no_faults now db title summary decisions open_loops
                artifacts tags importance session_id thread_id)) (int i) =
              Inr (GetOk \<lparr>v_id = i, v_created_at = now, v_session_id = session_id,
                          v_thread_id = thread_id, v_title = Some title,
                          v_summary = Some summary, v_decisions = decisions,
                          v_open_loops = open_loops,
                          v_artifacts = JObject (or_else artifacts []),
                          v_tags = JArray (map JString (or_else tags [])),
                          v_importance = Some importance\<rparr>)"
    by (intro exI [of _ ?i]) simp
next
  assume k: "fits_int64 k \<and> list_all (\<lambda>row. int (j_id row) \<noteq> k) (entries db)"
  then have "find (\<lambda>row. int (j_id row) = k) (entries db) = None"
    by (intro find_none) (simp add: list_all_iff)
  with k show "void_get_entry no_faults db k = Inr GetNotFound"
    by (simp add: void_get_entry_def no_faults_def)
qed

theorem void_entry_roundtrip_witness:
  "void_get_entry no_faults
     (snd (void_write_entry no_faults ''2026-01-01T09:00:00'' empty_void_db ''Design Review''
        ''Discussed X'' (Some []) (Some [])
        (Some [(''file'', JString ''a.py''), (''lines'', JArray [JInt 12, JInt (- 3)])])
        None 1 None None)) 1 =
     Inr (GetOk \<lparr>v_id = 1, v_created_at = ''2026-01-01T09:00:00'', v_session_id = None,
                 v_thread_id = None, v_title = Some ''Design Review'',
                 v_summary = Some ''Discussed X'', v_decisions = Some [],
                 v_open_loops = Some [],
                 v_artifacts = JObject [(''file'', JString ''a.py''),
                                        (''lines'', JArray [JInt 12, JInt (- 3)])],
                 v_tags = JArray [], v_importance = Some 1\<rparr>) \<and>
   void_get_entry no_faults empty_void_db 7 = Inr GetNotFound"
proof -
  let ?a = "Some [(''file'', JString ''a.py''), (''lines'', JArray [JInt 12, JInt (- 3)])]"
  have h: "wf_json (JObject (or_else ?a []))"
    by (simp add: or_else_def)
  have d: "length (digits 12) \<le> 4300" "length (digits 3) \<le> 4300"
    by (simp_all add: digits_simps_le digits_simps_ge)
  then have h2: "within_limits 100 (JObject (or_else ?a []))"
    by (simp add: or_else_def)
  have h3: "fits_int64 1"
    by (simp add: fits_int64_def)
  have h4: "fits_int64 (int (next_rowid (entries_seq empty_void_db)
      (map j_id (entries empty_void_db))))"
    by (simp add: fits_int64_def empty_void_db_def next_rowid_def)
  have i: "fst (void_write_entry no_faults ''2026-01-01T09:00:00'' empty_void_db
      ''Design Review'' ''Discussed X'' (Some []) (Some []) ?a None 1 None None) =
      Inr (WriteOk 1)"
    by (simp add: void_write_entry_def no_faults_def insert_entry_def empty_void_db_def
        next_rowid_def fits_int64_def Let_def del: json_dumps.simps)
  have n: "fits_int64 7 \<and> list_all (\<lambda>row. int (j_id row) \<noteq> 7) (entries empty_void_db)"
    by (simp add: empty_void_db_def fits_int64_def)
  let ?w = "void_write_entry no_faults ''2026-01-01T09:00:00'' empty_void_db
      ''Design Review'' ''Discussed X'' (Some []) (Some []) ?a None 1 None None"
  from void_entry_roundtrip [OF h h2 h3 h4, of "''2026-01-01T09:00:00''"
      "''Design Review''" "''Discussed X''" "Some []" "Some []" None None None 7] n
  obtain j where w: "?w = (Inr (WriteOk j), snd ?w)"
    and g: "void_get_entry no_faults (snd ?w) (int j) =
      Inr (GetOk \<lparr>v_id = j, v_created_at = ''2026-01-01T09:00:00'', v_session_id = None,
                  v_thread_id = None, v_title = Some ''Design Review'',
                  v_summary = Some ''Discussed X'', v_decisions = Some [],
                  v_open_loops = Some [],
                  v_artifacts = JObject (or_else ?a []),
                  v_tags = JArray (map JString (or_else None [])),
                  v_importance = Some 1\<rparr>)"
    and m: "void_get_entry no_faults empty_void_db 7 = Inr GetNotFound"
    by blast
  from w have "fst ?w = Inr (WriteOk j)"
    by (metis fst_conv)
  with i have j: "j = 1"
    by simp
  from g m show ?thesis
    unfolding j by (simp add: or_else_def)
qed

end
